theory Spec2Isabelle
  imports Main "HOL-Library.Word" "HOL-Library.AList"
begin

section \<open>String primitives used by the filesystem adapters\<close>

text \<open>
  Paths are strings; the root of the repository is the empty string.  The three
  regular-expression replacements and the \<^verbatim>\<open>split\<close>/\<^verbatim>\<open>join\<close> pair of the
  source are written out as list functions.
\<close>

type_synonym byte = "8 word"

text \<open>\<^verbatim>\<open>s.replace(/^\/+/, '')\<close>: drop every leading slash.\<close>

definition strip_leading_slashes :: "string \<Rightarrow> string" where
  "strip_leading_slashes s = dropWhile (\<lambda>c. c = CHR ''/'') s"

text \<open>\<^verbatim>\<open>s.replace(/\/+$/g, '')\<close>: drop every trailing slash.\<close>

definition strip_trailing_slashes :: "string \<Rightarrow> string" where
  "strip_trailing_slashes s = rev (dropWhile (\<lambda>c. c = CHR ''/'') (rev s))"

text \<open>\<^verbatim>\<open>s.replace(/^\.\//, '')\<close>: remove one leading \<^verbatim>\<open>./\<close>, if there is one.\<close>

fun strip_dot_slash :: "string \<Rightarrow> string" where
  "strip_dot_slash (a # b # rest) =
     (if a = CHR ''.'' \<and> b = CHR ''/'' then rest else a # b # rest)"
| "strip_dot_slash s = s"

text \<open>
  \<^verbatim>\<open>s.split('/')\<close>: the pieces between the separators; the empty string
  splits into one empty piece, and adjacent separators give empty pieces.
\<close>

fun split_slash :: "string \<Rightarrow> string list" where
  "split_slash [] = [[]]"
| "split_slash (c # cs) =
     (if c = CHR ''/'' then [] # split_slash cs
      else (case split_slash cs of
              [] \<Rightarrow> [[c]]
            | w # ws \<Rightarrow> (c # w) # ws))"

text \<open>\<^verbatim>\<open>parts.join('/')\<close>.\<close>

fun join_slash :: "string list \<Rightarrow> string" where
  "join_slash [] = []"
| "join_slash [w] = w"
| "join_slash (w # ws) = w @ CHR ''/'' # join_slash ws"

text \<open>\<^verbatim>\<open>s.startsWith(prefix)\<close>.\<close>

fun startsWith :: "string \<Rightarrow> string \<Rightarrow> bool" where
  "startsWith s [] = True"
| "startsWith [] (p # ps) = False"
| "startsWith (c # cs) (p # ps) = (c = p \<and> startsWith cs ps)"

section \<open>Path normalisation\<close>

text \<open>
  \<^verbatim>\<open>normalizePath\<close> of the SQLite adapter: strip the leading slashes, map
  \<^verbatim>\<open>.\<close> and \<^verbatim>\<open>./\<close> to the root, and otherwise remove one leading \<^verbatim>\<open>./\<close>.
\<close>

definition normalizePath :: "string \<Rightarrow> string" where
  "normalizePath p =
     (let stripped = strip_leading_slashes p
      in if stripped = ''.'' \<or> stripped = ''./'' then ''''
         else strip_dot_slash stripped)"

text \<open>\<^verbatim>\<open>normalize\<close> of the in-memory filesystem: only the leading slashes go.\<close>

definition mem_normalize :: "string \<Rightarrow> string" where
  "mem_normalize p = strip_leading_slashes p"

text \<open>
  The inputs on which one pass of \<^verbatim>\<open>normalizePath\<close> leaves something a second
  pass would still change: after the leading slashes, a \<^verbatim>\<open>./\<close> that is followed
  by a slash, by another \<^verbatim>\<open>./\<close>, or by a lone dot.
\<close>

definition stacked_prefix :: "string \<Rightarrow> bool" where
  "stacked_prefix p =
     (case strip_leading_slashes p of
        a # b # rest \<Rightarrow>
          a = CHR ''.'' \<and> b = CHR ''/'' \<and>
          (rest = ''.'' \<or> startsWith rest ''/'' \<or> startsWith rest ''./'')
      | _ \<Rightarrow> False)"

section \<open>Binary encoding utilities\<close>

text \<open>
  The platform's \<^verbatim>\<open>atob\<close> follows the forgiving-base64 decoding of the web
  platform: ASCII whitespace is removed; when the remaining length is a
  multiple of four, one or two trailing \<^verbatim>\<open>=\<close> are removed; a length of
  remainder one or any character outside the alphabet is an error; every four
  characters give three bytes, and a final group of two or three characters
  gives one or two bytes.  The result is a binary string, here the list of
  its character codes.
\<close>

definition ascii_whitespace :: "char \<Rightarrow> bool" where
  "ascii_whitespace c \<longleftrightarrow> (of_char c :: nat) \<in> {9, 10, 12, 13, 32}"

definition sextet :: "char \<Rightarrow> nat option" where
  "sextet c =
     (let n = (of_char c :: nat)
      in if 65 \<le> n \<and> n \<le> 90 then Some (n - 65)
         else if 97 \<le> n \<and> n \<le> 122 then Some (n - 71)
         else if 48 \<le> n \<and> n \<le> 57 then Some (n + 4)
         else if n = 43 then Some 62
         else if n = 47 then Some 63
         else None)"

fun drop_padding_rev :: "string \<Rightarrow> string" where
  "drop_padding_rev (a # b # r) =
     (if a = CHR ''='' then (if b = CHR ''='' then r else b # r) else a # b # r)"
| "drop_padding_rev [a] = (if a = CHR ''='' then [] else [a])"
| "drop_padding_rev [] = []"

definition strip_padding :: "string \<Rightarrow> string" where
  "strip_padding s = (if length s mod 4 = 0 then rev (drop_padding_rev (rev s)) else s)"

fun decode_sextets :: "nat list \<Rightarrow> nat list" where
  "decode_sextets (a # b # c # d # rest) =
     (a * 4 + b div 16) # ((b mod 16) * 16 + c div 4) # ((c mod 4) * 64 + d)
       # decode_sextets rest"
| "decode_sextets [a, b, c] = [a * 4 + b div 16, (b mod 16) * 16 + c div 4]"
| "decode_sextets [a, b] = [a * 4 + b div 16]"
| "decode_sextets [a] = []"
| "decode_sextets [] = []"

definition atob :: "string \<Rightarrow> nat list option" where
  "atob s =
     (let d = strip_padding (filter (\<lambda>c. \<not> ascii_whitespace c) s)
      in if length d mod 4 = 1 then None
         else if list_ex (\<lambda>c. sextet c = None) d then None
         else Some (decode_sextets (map (\<lambda>c. the (sextet c)) d)))"

text \<open>Errors.  An errno exception carries its code, its number and the path as given.\<close>

datatype errcode = ENOENT | EISDIR | ENOTDIR | EEXIST | EPERM | ENOTEMPTY

datatype fs_error =
    Errno errcode int string
  | CodeOnly errcode
  | Error string
  | InvalidCharacterError
  | ConstraintError

text \<open>\<^verbatim>\<open>typedArray.set(chunk, offset)\<close>, for a chunk that fits.\<close>

definition set_at :: "byte list \<Rightarrow> byte list \<Rightarrow> nat \<Rightarrow> byte list" where
  "set_at out chunk offset = take offset out @ chunk @ drop (offset + length chunk) out"

fun copy_chunks :: "byte list list \<Rightarrow> byte list \<Rightarrow> nat \<Rightarrow> byte list" where
  "copy_chunks [] out offset = out"
| "copy_chunks (chunk # chunks) out offset =
     copy_chunks chunks (set_at out chunk offset) (offset + length chunk)"

definition concatBuffers :: "byte list list \<Rightarrow> byte list" where
  "concatBuffers chunks =
     (if length chunks = 0 then []
      else if length chunks = 1 then hd chunks
      else let total = foldl (\<lambda>n c. n + length c) 0 chunks
           in copy_chunks chunks (replicate total 0) 0)"

text \<open>A \<^verbatim>\<open>data\<close> column holds a blob, a text (legacy base64) or NULL.\<close>

datatype sql_data = Blob "byte list" | Text string | Null

definition toBuffer :: "byte list \<Rightarrow> sql_data" where
  "toBuffer bytes = Blob bytes"

definition base64ToUint8Array :: "string \<Rightarrow> fs_error + byte list" where
  "base64ToUint8Array base64 =
     (case atob base64 of
        None \<Rightarrow> Inl InvalidCharacterError
      | Some binary \<Rightarrow> Inr (map word_of_nat binary))"

definition rowDataToBytes :: "sql_data \<Rightarrow> fs_error + byte list" where
  "rowDataToBytes d =
     (case d of
        Blob b \<Rightarrow> Inr b
      | Text s \<Rightarrow> if length s > 0 then base64ToUint8Array s else Inr []
      | Null \<Rightarrow> Inr [])"

section \<open>The table \<^verbatim>\<open>git_objects\<close>\<close>

text \<open>
  A v2 row; the primary key is \<open>(path, chunk_index)\<close>.  The table is the list
  of its rows in insertion order.
\<close>

record row =
  path :: string
  chunk_index :: nat
  parent_path :: string
  data :: sql_data
  is_dir :: nat
  size_col :: nat
  mtime :: int

type_synonym table = "row list"

definition same_key :: "row \<Rightarrow> row \<Rightarrow> bool" where
  "same_key r r' \<longleftrightarrow> path r = path r' \<and> chunk_index r = chunk_index r'"

text \<open>\<^verbatim>\<open>SELECT ... WHERE path = p AND chunk_index = 0\<close>, first result.\<close>

definition select_chunk0 :: "table \<Rightarrow> string \<Rightarrow> row option" where
  "select_chunk0 t p = find (\<lambda>r. path r = p \<and> chunk_index r = 0) t"

text \<open>\<^verbatim>\<open>SELECT ... WHERE path = p ORDER BY chunk_index\<close>.\<close>

definition select_rows :: "table \<Rightarrow> string \<Rightarrow> row list" where
  "select_rows t p = sort_key chunk_index (filter (\<lambda>r. path r = p) t)"

text \<open>\<^verbatim>\<open>SELECT path ... WHERE parent_path = p AND chunk_index = 0 LIMIT 1\<close>.\<close>

definition select_child :: "table \<Rightarrow> string \<Rightarrow> row option" where
  "select_child t p = find (\<lambda>r. parent_path r = p \<and> chunk_index r = 0) t"

text \<open>\<^verbatim>\<open>INSERT\<close>: a row with the same primary key is a constraint violation.\<close>

definition sql_insert :: "table \<Rightarrow> row \<Rightarrow> fs_error + table" where
  "sql_insert t r = (if list_ex (same_key r) t then Inl ConstraintError else Inr (t @ [r]))"

definition insert_or_ignore :: "table \<Rightarrow> row \<Rightarrow> table" where
  "insert_or_ignore t r = (if list_ex (same_key r) t then t else t @ [r])"

definition insert_or_replace :: "table \<Rightarrow> row \<Rightarrow> table" where
  "insert_or_replace t r = filter (\<lambda>r'. \<not> same_key r r') t @ [r]"

text \<open>\<^verbatim>\<open>DELETE FROM git_objects WHERE path = p\<close>.\<close>

definition delete_path :: "table \<Rightarrow> string \<Rightarrow> table" where
  "delete_path t p = filter (\<lambda>r. path r \<noteq> p) t"

definition dir_row :: "string \<Rightarrow> string \<Rightarrow> int \<Rightarrow> row" where
  "dir_row p parent now =
     \<lparr>path = p, chunk_index = 0, parent_path = parent, data = Null,
      is_dir = 1, size_col = 0, mtime = now\<rparr>"

section \<open>Schema and migration\<close>

record v1_row =
  v1_path :: string
  v1_parent_path :: string
  v1_data :: sql_data
  v1_is_dir :: nat
  v1_mtime :: int

datatype database = NoTable | V1 "v1_row list" | V2 table

definition createSchema :: "int \<Rightarrow> table" where
  "createSchema now = insert_or_ignore [] (dir_row '''' '''' now)"

definition v1_to_v2 :: "v1_row \<Rightarrow> row" where
  "v1_to_v2 r =
     \<lparr>path = v1_path r, chunk_index = 0, parent_path = v1_parent_path r,
      data = v1_data r, is_dir = v1_is_dir r, size_col = 0, mtime = v1_mtime r\<rparr>"

fun copy_rows :: "table \<Rightarrow> v1_row list \<Rightarrow> fs_error + table" where
  "copy_rows t [] = Inr t"
| "copy_rows t (r # rs) =
     (case sql_insert t (v1_to_v2 r) of
        Inl e \<Rightarrow> Inl e
      | Inr t' \<Rightarrow> copy_rows t' rs)"

definition migrateV1toV2 :: "v1_row list \<Rightarrow> int \<Rightarrow> fs_error + table" where
  "migrateV1toV2 old now =
     (case copy_rows [] old of
        Inl e \<Rightarrow> Inl e
      | Inr t \<Rightarrow> Inr (insert_or_ignore t (dir_row '''' '''' now)))"

definition init :: "database \<Rightarrow> int \<Rightarrow> fs_error + table" where
  "init db now =
     (case db of
        NoTable \<Rightarrow> Inr (createSchema now)
      | V1 old \<Rightarrow> migrateV1toV2 old now
      | V2 t \<Rightarrow> Inr t)"

section \<open>The SQLite filesystem\<close>

definition CHUNK_SIZE :: nat where
  "CHUNK_SIZE = 1800 * 1024"

fun decode_rows :: "row list \<Rightarrow> fs_error + byte list list" where
  "decode_rows [] = Inr []"
| "decode_rows (r # rs) =
     (case rowDataToBytes (data r) of
        Inl e \<Rightarrow> Inl e
      | Inr b \<Rightarrow> (case decode_rows rs of Inl e \<Rightarrow> Inl e | Inr bs \<Rightarrow> Inr (b # bs)))"

definition readFile :: "table \<Rightarrow> string \<Rightarrow> fs_error + byte list" where
  "readFile t p =
     (let normalized = normalizePath p
      in case select_chunk0 t normalized of
           None \<Rightarrow> Inl (Errno ENOENT (- 2) p)
         | Some meta \<Rightarrow>
             if is_dir meta \<noteq> 0 then Inl (Errno EISDIR (- 21) p)
             else (case decode_rows (select_rows t normalized) of
                     Inl e \<Rightarrow> Inl e
                   | Inr chunks \<Rightarrow> Inr (concatBuffers chunks)))"

text \<open>The loop that inserts the ancestors of a file, for \<open>i = 0, \<dots>, length parts - 2\<close>.\<close>

fun ensure_parents :: "table \<Rightarrow> string list \<Rightarrow> int \<Rightarrow> nat list \<Rightarrow> table" where
  "ensure_parents t parts now [] = t"
| "ensure_parents t parts now (i # is) =
     (let dirPath = join_slash (take (i + 1) parts);
          dirParent = (if i = 0 then '''' else join_slash (take i parts))
      in ensure_parents (insert_or_ignore t (dir_row dirPath dirParent now)) parts now is)"

definition chunk_row :: "string \<Rightarrow> string \<Rightarrow> byte list \<Rightarrow> int \<Rightarrow> nat \<Rightarrow> row" where
  "chunk_row normalized parentPath bytes now i =
     (let totalSize = length bytes;
          start = i * CHUNK_SIZE;
          end = min (start + CHUNK_SIZE) totalSize;
          chunkBuf = toBuffer (take (end - start) (drop start bytes))
      in \<lparr>path = normalized, chunk_index = i,
          parent_path = (if i = 0 then parentPath else ''''),
          data = chunkBuf, is_dir = 0,
          size_col = (if i = 0 then totalSize else 0), mtime = now\<rparr>)"

text \<open>The loop that inserts the chunks, for \<open>i = 0, \<dots>, chunkCount - 1\<close>.\<close>

fun write_chunks ::
  "table \<Rightarrow> string \<Rightarrow> string \<Rightarrow> byte list \<Rightarrow> int \<Rightarrow> nat list \<Rightarrow> fs_error + table" where
  "write_chunks t normalized parentPath bytes now [] = Inr t"
| "write_chunks t normalized parentPath bytes now (i # is) =
     (case sql_insert t (chunk_row normalized parentPath bytes now i) of
        Inl e \<Rightarrow> Inl e
      | Inr t' \<Rightarrow> write_chunks t' normalized parentPath bytes now is)"

text \<open>
  \<^verbatim>\<open>writeFile\<close> on bytes (a string argument is encoded as UTF-8 before
  anything else happens).  The clock is read twice: \<open>now_dirs\<close> stamps the
  ancestors, \<open>now\<close> the chunks.  \<^verbatim>\<open>Math.ceil(totalSize / CHUNK_SIZE)\<close> is the
  rounded-up quotient.
\<close>

definition writeFile :: "table \<Rightarrow> string \<Rightarrow> byte list \<Rightarrow> int \<Rightarrow> int \<Rightarrow> fs_error + table" where
  "writeFile t p bytes now_dirs now =
     (let normalized = normalizePath p
      in if normalized = '''' then Inl (Error ''Cannot write to root'')
         else if (case select_chunk0 t normalized of None \<Rightarrow> False | Some e \<Rightarrow> is_dir e = 1)
         then Inl (Errno EISDIR (- 21) p)
         else
           let parts = split_slash normalized;
               parentPath = (if length parts > 1 then join_slash (butlast parts) else '''');
               t1 = (if length parts > 1
                     then ensure_parents t parts now_dirs [0 ..< length parts - 1]
                     else t);
               t2 = delete_path t1 normalized;
               totalSize = length bytes;
               chunkCount = max 1 ((totalSize + CHUNK_SIZE - 1) div CHUNK_SIZE)
           in write_chunks t2 normalized parentPath bytes now [0 ..< chunkCount])"

definition unlink :: "table \<Rightarrow> string \<Rightarrow> fs_error + table" where
  "unlink t p =
     (let normalized = normalizePath p
      in case select_chunk0 t normalized of
           None \<Rightarrow> Inl (Errno ENOENT (- 2) p)
         | Some e \<Rightarrow>
             if is_dir e = 1 then Inl (Errno EPERM (- 1) p)
             else Inr (delete_path t normalized))"

definition mkdir :: "table \<Rightarrow> string \<Rightarrow> int \<Rightarrow> fs_error + table" where
  "mkdir t p now =
     (let normalized = strip_trailing_slashes (normalizePath p)
      in if normalized = '''' then Inr t
         else
           let parts = split_slash normalized
           in if length parts > 1 \<and>
                 (case select_chunk0 t (join_slash (butlast parts)) of
                    None \<Rightarrow> True
                  | Some parent \<Rightarrow> is_dir parent \<noteq> 1)
              then Inl (Errno ENOENT (- 2) p)
              else (case select_chunk0 t normalized of
                      Some e \<Rightarrow>
                        if is_dir e = 1 then Inr t
                        else Inl (Errno EEXIST (- 17) p)
                    | None \<Rightarrow>
                        let parentPath =
                              (if length parts > 1 then join_slash (butlast parts) else '''')
                        in Inr (insert_or_ignore t (dir_row normalized parentPath now))))"

definition rmdir :: "table \<Rightarrow> string \<Rightarrow> fs_error + table" where
  "rmdir t p =
     (let normalized = strip_trailing_slashes (normalizePath p)
      in if normalized = '''' then Inl (Error ''Cannot remove root directory'')
         else (case select_chunk0 t normalized of
                 None \<Rightarrow> Inl (Errno ENOENT (- 2) p)
               | Some e \<Rightarrow>
                   if is_dir e \<noteq> 1 then Inl (Errno ENOTDIR (- 20) p)
                   else if select_child t normalized \<noteq> None
                   then Inl (Errno ENOTEMPTY (- 39) p)
                   else Inr (delete_path t normalized)))"

datatype file_type = File | Dir

record stat_result =
  stat_type :: file_type
  stat_mode :: nat
  stat_size :: int
  stat_mtimeMs :: int
  stat_isSymbolicLink :: bool

text \<open>The length of the match of \<^verbatim>\<open>/=+$/\<close>, or 0 when there is none.\<close>

definition trailing_equals :: "string \<Rightarrow> nat" where
  "trailing_equals s = length (takeWhile (\<lambda>c. c = CHR ''='') (rev s))"

definition stat :: "table \<Rightarrow> string \<Rightarrow> fs_error + stat_result" where
  "stat t p =
     (let normalized = normalizePath p
      in case select_chunk0 t normalized of
           None \<Rightarrow> Inl (Errno ENOENT (- 2) p)
         | Some r \<Rightarrow>
             let isDir = (is_dir r = 1);
                 size0 = int (size_col r);
                 sz = (if \<not> isDir \<and> size0 = 0 \<and> data r \<noteq> Null
                       then (case data r of
                               Blob b \<Rightarrow> int (length b)
                             | Text s \<Rightarrow> int ((length s * 3) div 4) - int (trailing_equals s)
                             | Null \<Rightarrow> size0)
                       else size0)
             in Inr \<lparr>stat_type = (if isDir then Dir else File),
                     stat_mode = (if isDir then 16877 else 33188),
                     stat_size = sz,
                     stat_mtimeMs = mtime r,
                     stat_isSymbolicLink = False\<rparr>)"

text \<open>The loop of \<^verbatim>\<open>rename\<close> that copies the rows of the old path to the new one.\<close>

fun move_rows :: "table \<Rightarrow> string \<Rightarrow> string \<Rightarrow> row list \<Rightarrow> table" where
  "move_rows t newNorm newParent [] = t"
| "move_rows t newNorm newParent (r # rs) =
     (let parentPath = (if chunk_index r = 0 then newParent else parent_path r)
      in move_rows
           (insert_or_replace t
              \<lparr>path = newNorm, chunk_index = chunk_index r, parent_path = parentPath,
               data = data r, is_dir = is_dir r, size_col = size_col r, mtime = mtime r\<rparr>)
           newNorm newParent rs)"

definition rename :: "table \<Rightarrow> string \<Rightarrow> string \<Rightarrow> fs_error + table" where
  "rename t oldPath newPath =
     (let oldNorm = normalizePath oldPath;
          newNorm = normalizePath newPath;
          newParts = split_slash newNorm;
          newParent = (if length newParts > 1 then join_slash (butlast newParts) else '''');
          rows = select_rows t oldNorm
      in if length rows = 0 then Inl (Errno ENOENT (- 2) oldPath)
         else Inr (delete_path (move_rows t newNorm newParent rows) oldNorm))"

section \<open>The in-memory filesystem\<close>

text \<open>
  The two maps of \<^verbatim>\<open>MemFS\<close>, in insertion order: \<^verbatim>\<open>set\<close> replaces the value of
  a key that is present and appends a new key, \<^verbatim>\<open>delete\<close> removes the key.
\<close>

record memfs =
  files :: "(string \<times> byte list) list"
  symlinks :: "(string \<times> string) list"

definition mem_empty :: memfs where
  "mem_empty = \<lparr>files = [], symlinks = []\<rparr>"

definition mem_writeFile :: "memfs \<Rightarrow> string \<Rightarrow> byte list \<Rightarrow> memfs" where
  "mem_writeFile m p bytes = m\<lparr>files := AList.update (mem_normalize p) bytes (files m)\<rparr>"

definition mem_readFile :: "memfs \<Rightarrow> string \<Rightarrow> fs_error + byte list" where
  "mem_readFile m p =
     (case map_of (files m) (mem_normalize p) of
        None \<Rightarrow> Inl (CodeOnly ENOENT)
      | Some d \<Rightarrow> Inr d)"

definition makeStat :: "file_type \<Rightarrow> nat \<Rightarrow> int \<Rightarrow> bool \<Rightarrow> int \<Rightarrow> stat_result" where
  "makeStat ty md sz isSymlink now =
     \<lparr>stat_type = ty, stat_mode = md, stat_size = sz, stat_mtimeMs = now,
      stat_isSymbolicLink = isSymlink\<rparr>"

definition mem_stat :: "memfs \<Rightarrow> string \<Rightarrow> int \<Rightarrow> fs_error + stat_result" where
  "mem_stat m p now =
     (let normalized = mem_normalize p
      in case map_of (symlinks m) normalized of
           Some target \<Rightarrow>
             Inr (makeStat File 33188
                    (case map_of (files m) (mem_normalize target) of
                       None \<Rightarrow> 0
                     | Some targetData \<Rightarrow> int (length targetData))
                    False now)
         | None \<Rightarrow>
             (case map_of (files m) normalized of
                Some d \<Rightarrow> Inr (makeStat File 33188 (int (length d)) False now)
              | None \<Rightarrow>
                  let prefix = (if normalized \<noteq> '''' then normalized @ ''/'' else '''')
                  in if list_ex (\<lambda>filePath. startsWith filePath prefix) (map fst (files m))
                     then Inr (makeStat Dir 16877 0 False now)
                     else if list_ex (\<lambda>linkPath. startsWith linkPath prefix)
                               (map fst (symlinks m))
                     then Inr (makeStat Dir 16877 0 False now)
                     else Inl (CodeOnly ENOENT)))"

definition mem_symlink :: "memfs \<Rightarrow> string \<Rightarrow> string \<Rightarrow> memfs" where
  "mem_symlink m target p = m\<lparr>symlinks := AList.update (mem_normalize p) target (symlinks m)\<rparr>"

definition mem_unlink :: "memfs \<Rightarrow> string \<Rightarrow> fs_error + memfs" where
  "mem_unlink m p =
     (let normalized = mem_normalize p
      in Inr (m\<lparr>files := AList.delete normalized (files m),
                symlinks := AList.delete normalized (symlinks m)\<rparr>))"

section \<open>Vocabulary of the claims\<close>

text \<open>
  What a path is in a table, read off its chunk-0 row: a directory
  (\<open>is_dir = 1\<close>), a file (any other \<open>is_dir\<close>; the filesystem writes 0),
  or absent (no chunk-0 row).
\<close>

definition exists_as_dir :: "table \<Rightarrow> string \<Rightarrow> bool" where
  "exists_as_dir t p = (case select_chunk0 t p of None \<Rightarrow> False | Some r \<Rightarrow> is_dir r = 1)"

definition exists_as_file :: "table \<Rightarrow> string \<Rightarrow> bool" where
  "exists_as_file t p = (case select_chunk0 t p of None \<Rightarrow> False | Some r \<Rightarrow> is_dir r \<noteq> 1)"

definition absent :: "table \<Rightarrow> string \<Rightarrow> bool" where
  "absent t p = (select_chunk0 t p = None)"

text \<open>The parent of a path: what precedes its last slash, the root when it has none.\<close>

definition parent_of :: "string \<Rightarrow> string" where
  "parent_of p = rev (drop 1 (dropWhile (\<lambda>c. c \<noteq> CHR ''/'') (rev p)))"

text \<open>The bytes of chunk \<open>i\<close> of a file, as \<^verbatim>\<open>writeFile\<close> slices them.\<close>

definition slice_of :: "byte list \<Rightarrow> nat \<Rightarrow> byte list" where
  "slice_of bytes i =
     take (min (i * CHUNK_SIZE + CHUNK_SIZE) (length bytes) - i * CHUNK_SIZE)
       (drop (i * CHUNK_SIZE) bytes)"

text \<open>The number of chunks \<^verbatim>\<open>writeFile\<close> stores for a file of a given size.\<close>

definition chunkCount :: "nat \<Rightarrow> nat" where
  "chunkCount totalSize = max 1 ((totalSize + CHUNK_SIZE - 1) div CHUNK_SIZE)"

text \<open>The rows \<^verbatim>\<open>writeFile\<close> inserts for a file, in the order of the loop.\<close>

definition stored_rows :: "string \<Rightarrow> byte list \<Rightarrow> int \<Rightarrow> row list" where
  "stored_rows n bs now =
     map (chunk_row n (if length (split_slash n) > 1 then join_slash (butlast (split_slash n)) else [])
            bs now)
       [0 ..< chunkCount (length bs)]"

text \<open>The row \<^verbatim>\<open>rename\<close> writes at the new path for a row of the old path.\<close>

definition moved_row :: "string \<Rightarrow> string \<Rightarrow> row \<Rightarrow> row" where
  "moved_row newNorm newParent r =
     \<lparr>path = newNorm, chunk_index = chunk_index r,
      parent_path = (if chunk_index r = 0 then newParent else parent_path r),
      data = data r, is_dir = is_dir r, size_col = size_col r, mtime = mtime r\<rparr>"

text \<open>The primary key of the table: no two rows share path and chunk index.\<close>

definition primary_key_ok :: "table \<Rightarrow> bool" where
  "primary_key_ok t = distinct (map (\<lambda>r. (path r, chunk_index r)) t)"

section \<open>Example states\<close>

text \<open>
  A small repository: the root, a directory \<^verbatim>\<open>x\<close>, a one-byte file \<^verbatim>\<open>f\<close>, and
  a directory \<^verbatim>\<open>d\<close> holding the one-byte file \<^verbatim>\<open>d/f\<close>.
\<close>

definition small_repo :: table where
  "small_repo =
     [dir_row '''' '''' 0,
      dir_row ''x'' '''' 1,
      chunk_row ''f'' '''' [49] 2 0,
      dir_row ''d'' '''' 3,
      chunk_row ''d/f'' ''d'' [49] 4 0]"

text \<open>A v1 row: the file \<^verbatim>\<open>readme\<close> with the base64 text of \<^verbatim>\<open>hello\<close>.\<close>

definition legacy_readme :: v1_row where
  "legacy_readme =
     \<lparr>v1_path = ''readme'', v1_parent_path = '''', v1_data = Text ''aGVsbG8='',
      v1_is_dir = 0, v1_mtime = 7\<rparr>"

text \<open>
  A file one byte longer than a chunk, and a table holding it at \<^verbatim>\<open>b\<close> (two
  chunks) next to a one-byte file at \<^verbatim>\<open>a\<close>; and what \<^verbatim>\<open>rename a b\<close> leaves.
\<close>

definition big_file :: "byte list" where
  "big_file = replicate (CHUNK_SIZE + 1) 1"

definition two_files :: table where
  "two_files =
     [dir_row '''' '''' 0,
      chunk_row ''b'' '''' big_file 2 0,
      chunk_row ''b'' '''' big_file 2 1,
      chunk_row ''a'' '''' [7] 4 0]"

definition after_rename :: table where
  "after_rename =
     [dir_row '''' '''' 0,
      chunk_row ''b'' '''' big_file 2 1,
      \<lparr>path = ''b'', chunk_index = 0, parent_path = '''', data = Blob [7],
       is_dir = 0, size_col = 1, mtime = 4\<rparr>]"

text \<open>A table in which \<^verbatim>\<open>a\<close> was written as a file and \<^verbatim>\<open>a/b\<close> was written after it.\<close>

definition file_with_child :: table where
  "file_with_child =
     [dir_row '''' '''' 0,
      chunk_row ''a'' '''' [1] 2 0,
      chunk_row ''a/b'' ''a'' [2] 4 0]"

section \<open>Properties of path normalisation\<close>

lemma strip_leading_slashes_idem:
  "strip_leading_slashes (strip_leading_slashes s) = strip_leading_slashes s"
  by (simp add: strip_leading_slashes_def dropWhile_idem)

lemma strip_leading_slashes_noop:
  "\<not> startsWith s ''/'' \<Longrightarrow> strip_leading_slashes s = s"
  by (cases s) (simp_all add: strip_leading_slashes_def)

lemma strip_leading_slashes_head:
  "\<not> startsWith (strip_leading_slashes s) ''/''"
  unfolding strip_leading_slashes_def
  by (induction s) simp_all

lemma normalizePath_fixed:
  assumes "\<not> startsWith s ''/''" and "s \<noteq> ''.''" and "\<not> startsWith s ''./''"
  shows "normalizePath s = s"
proof -
  have st: "strip_leading_slashes s = s"
    using assms(1) by (rule strip_leading_slashes_noop)
  have "strip_dot_slash s = s"
    using assms(3) by (cases s rule: strip_dot_slash.cases) auto
  moreover have "s \<noteq> ''./''"
    using assms(3) by auto
  ultimately show ?thesis
    using assms(2) by (simp add: normalizePath_def st)
qed

lemma normalizePath_twice:
  "normalizePath (normalizePath p) = normalizePath p \<longleftrightarrow> \<not> stacked_prefix p"
proof -
  define s where "s = strip_leading_slashes p"
  have hd: "\<not> startsWith s ''/''"
    unfolding s_def by (rule strip_leading_slashes_head)
  show ?thesis
  proof (cases "s = ''.'' \<or> s = ''./''")
    case True
    then have "normalizePath p = ''''"
      by (simp add: normalizePath_def s_def [symmetric])
    moreover have "normalizePath '''' = ''''"
      by (simp add: normalizePath_def strip_leading_slashes_def)
    moreover have "\<not> stacked_prefix p"
      using True by (auto simp: stacked_prefix_def s_def [symmetric])
    ultimately show ?thesis by simp
  next
    case False
    then have np: "normalizePath p = strip_dot_slash s"
      by (simp add: normalizePath_def s_def [symmetric])
    show ?thesis
    proof (cases "startsWith s ''./''")
      case dot: True
      then obtain rest where s: "s = CHR ''.'' # CHR ''/'' # rest"
        by (cases s rule: strip_dot_slash.cases) auto
      have np': "normalizePath p = rest"
        by (simp add: np s)
      have sp: "stacked_prefix p \<longleftrightarrow>
                  rest = ''.'' \<or> startsWith rest ''/'' \<or> startsWith rest ''./''"
        by (simp add: stacked_prefix_def s_def [symmetric] s)
      show ?thesis
      proof (cases "rest = ''.'' \<or> startsWith rest ''/'' \<or> startsWith rest ''./''")
        case bad: True
        have "normalizePath rest \<noteq> rest"
        proof (cases "rest = ''.''")
          case True
          then show ?thesis
            by (simp add: normalizePath_def strip_leading_slashes_def)
        next
          case notdot: False
          show ?thesis
          proof (cases "startsWith rest ''/''")
            case True
            then obtain r where r: "rest = CHR ''/'' # r"
              by (cases rest) auto
            have "length (strip_leading_slashes rest) \<le> length r"
              by (simp add: r strip_leading_slashes_def length_dropWhile_le)
            moreover have "length (strip_dot_slash x) \<le> length x" for x
              by (cases x rule: strip_dot_slash.cases) auto
            ultimately have "length (normalizePath rest) \<le> length r"
              by (auto simp: normalizePath_def Let_def intro: order_trans)
            then show ?thesis
              by (auto simp: r)
          next
            case False
            with bad notdot have "startsWith rest ''./''" by simp
            then obtain r where r: "rest = CHR ''.'' # CHR ''/'' # r"
              by (cases rest rule: strip_dot_slash.cases) auto
            have "length (normalizePath rest) \<le> length r"
              by (simp add: normalizePath_def r strip_leading_slashes_def)
            then show ?thesis
              by (auto simp: r)
          qed
        qed
        with bad sp np' show ?thesis by simp
      next
        case good: False
        then have "normalizePath rest = rest"
          by (intro normalizePath_fixed) auto
        with good sp np' show ?thesis by simp
      qed
    next
      case nodot: False
      then have sd: "strip_dot_slash s = s"
        by (cases s rule: strip_dot_slash.cases) auto
      have "normalizePath s = s"
        using hd False nodot by (intro normalizePath_fixed) auto
      moreover have "\<not> stacked_prefix p"
        using nodot by (auto simp: stacked_prefix_def s_def [symmetric] split: list.splits)
      ultimately show ?thesis
        by (simp add: np sd)
    qed
  qed
qed

lemma mem_normalize_idem: "mem_normalize (mem_normalize p) = mem_normalize p"
  by (simp add: mem_normalize_def strip_leading_slashes_idem)

section \<open>Claims about path normalisation\<close>

text \<open>
  C5 (as amended).  \<^verbatim>\<open>normalizePath\<close> of the persistent filesystem sends
  \<^verbatim>\<open>/a\<close>, \<^verbatim>\<open>a\<close> and \<^verbatim>\<open>./a\<close> to \<^verbatim>\<open>a\<close>, and a second application changes nothing
  exactly when the input has no stacked prefix (a leading \<^verbatim>\<open>./\<close> followed by a
  slash, another \<^verbatim>\<open>./\<close> or a lone dot).  \<^verbatim>\<open>normalize\<close> of the in-memory
  filesystem is idempotent on every input and sends \<^verbatim>\<open>/a\<close> and \<^verbatim>\<open>a\<close> to \<^verbatim>\<open>a\<close>.
\<close>

theorem normalize_idempotent_amended:
  "(\<not> stacked_prefix p \<longleftrightarrow> normalizePath (normalizePath p) = normalizePath p)
   \<and> normalizePath ''/a'' = ''a'' \<and> normalizePath ''a'' = ''a'' \<and> normalizePath ''./a'' = ''a''
   \<and> mem_normalize (mem_normalize p) = mem_normalize p
   \<and> mem_normalize ''/a'' = ''a'' \<and> mem_normalize ''a'' = ''a''"
  using normalizePath_twice [of p] mem_normalize_idem [of p]
  by (simp add: normalizePath_def mem_normalize_def strip_leading_slashes_def)

text \<open>The amended statement at the input \<^verbatim>\<open>//./src/a\<close>, which has no stacked prefix.\<close>

theorem normalize_idempotent_amended_witness:
  "\<not> stacked_prefix ''//./src/a''
   \<and> normalizePath (normalizePath ''//./src/a'') = normalizePath ''//./src/a''
   \<and> normalizePath ''//./src/a'' = ''src/a''"
  using normalize_idempotent_amended [of "''//./src/a''"]
  by (simp add: stacked_prefix_def normalizePath_def strip_leading_slashes_def)

text \<open>
  C5 as stated fails: on \<^verbatim>\<open>././a\<close> the first pass of \<^verbatim>\<open>normalizePath\<close> gives
  \<^verbatim>\<open>./a\<close> and the second gives \<^verbatim>\<open>a\<close>; and \<^verbatim>\<open>normalize\<close> of the in-memory
  filesystem leaves \<^verbatim>\<open>./a\<close> as it is.
\<close>

theorem normalize_idempotent_counterexample:
  "normalizePath ''././a'' = ''./a''
   \<and> normalizePath (normalizePath ''././a'') = ''a''
   \<and> normalizePath (normalizePath ''././a'') \<noteq> normalizePath ''././a''
   \<and> mem_normalize ''./a'' \<noteq> ''a''"
  by (simp add: normalizePath_def mem_normalize_def strip_leading_slashes_def)

section \<open>Claims about the in-memory filesystem\<close>

lemma startsWith_Nil [simp]: "startsWith s []"
  by (cases s) simp_all

lemma mem_stat_root:
  assumes "map_of (symlinks m) [] = None" and "map_of (files m) [] = None"
  shows "mem_stat m [] now =
           (if files m = [] \<and> symlinks m = [] then Inl (CodeOnly ENOENT)
            else Inr (makeStat Dir 16877 0 False now))"
proof -
  have ex: "list_ex (\<lambda>k. True) ks \<longleftrightarrow> ks \<noteq> []" for ks :: "string list"
    by (cases ks) simp_all
  show ?thesis
    using assms by (simp add: mem_stat_def mem_normalize_def strip_leading_slashes_def ex)
qed

text \<open>
  C9 (as amended).  In the in-memory filesystem, \<^verbatim>\<open>stat\<close> on the root (any
  path that normalises to the empty string) reports a directory in every
  state in which at least one of the two maps has an entry and the empty
  path is not itself a key; in the state where both maps are empty it raises
  \<^verbatim>\<open>ENOENT\<close>.
\<close>

theorem mem_stat_root_amended:
  assumes "mem_normalize p = []"
    and "map_of (symlinks m) [] = None" and "map_of (files m) [] = None"
  shows "(files m \<noteq> [] \<or> symlinks m \<noteq> [] \<longrightarrow>
            mem_stat m p now = Inr (makeStat Dir 16877 0 False now))
         \<and> (files m = [] \<and> symlinks m = [] \<longrightarrow> mem_stat m p now = Inl (CodeOnly ENOENT))"
proof -
  have "mem_normalize [] = []"
    by (simp add: mem_normalize_def strip_leading_slashes_def)
  then have "mem_stat m p now = mem_stat m [] now"
    unfolding mem_stat_def assms(1) by simp
  then show ?thesis
    using mem_stat_root [OF assms(2,3), of now] by auto
qed

text \<open>The amended statement after one file has been written, and on the empty filesystem.\<close>

theorem mem_stat_root_amended_witness:
  "mem_normalize ''/'' = []
   \<and> map_of (symlinks (mem_writeFile mem_empty ''src/a'' [1])) [] = None
   \<and> map_of (files (mem_writeFile mem_empty ''src/a'' [1])) [] = None
   \<and> files (mem_writeFile mem_empty ''src/a'' [1]) \<noteq> []
   \<and> mem_stat (mem_writeFile mem_empty ''src/a'' [1]) ''/'' 0 = Inr (makeStat Dir 16877 0 False 0)
   \<and> files mem_empty = [] \<and> symlinks mem_empty = []
   \<and> mem_stat mem_empty ''/'' 0 = Inl (CodeOnly ENOENT)"
  using mem_stat_root_amended [of "''/''" "mem_writeFile mem_empty ''src/a'' [1]" 0]
    mem_stat_root_amended [of "''/''" mem_empty 0]
  by (simp add: mem_normalize_def strip_leading_slashes_def mem_writeFile_def mem_empty_def)

text \<open>
  C9 as stated fails: on the filesystem as constructed, with both maps empty,
  \<^verbatim>\<open>stat\<close> on the root raises \<^verbatim>\<open>ENOENT\<close>.
\<close>

theorem mem_stat_root_counterexample:
  "mem_stat mem_empty '''' 0 = Inl (CodeOnly ENOENT)
   \<and> mem_stat mem_empty ''/'' 0 = Inl (CodeOnly ENOENT)"
  by (simp add: mem_stat_def mem_empty_def mem_normalize_def strip_leading_slashes_def)

lemma alist_delete_filter: "AList.delete k al = filter (\<lambda>e. fst e \<noteq> k) al"
  by (induction al) (auto simp: AList.delete_eq)

text \<open>
  C10.  In the in-memory filesystem \<^verbatim>\<open>unlink\<close> always returns, whether or not
  the path is a key of either map; afterwards the normalised path is a key of
  neither map, and every other key of both maps has the value it had, in the
  order it had.
\<close>

theorem mem_unlink_total:
  "\<exists>m'. mem_unlink m p = Inr m'
     \<and> map_of (files m') (mem_normalize p) = None
     \<and> map_of (symlinks m') (mem_normalize p) = None
     \<and> (\<forall>k. k \<noteq> mem_normalize p \<longrightarrow>
            map_of (files m') k = map_of (files m) k
          \<and> map_of (symlinks m') k = map_of (symlinks m) k)
     \<and> files m' = filter (\<lambda>e. fst e \<noteq> mem_normalize p) (files m)
     \<and> symlinks m' = filter (\<lambda>e. fst e \<noteq> mem_normalize p) (symlinks m)"
proof -
  let ?k = "mem_normalize p"
  let ?m' = "m\<lparr>files := AList.delete ?k (files m), symlinks := AList.delete ?k (symlinks m)\<rparr>"
  have "mem_unlink m p = Inr ?m'"
    by (simp add: mem_unlink_def Let_def)
  moreover have "map_of (files ?m') ?k = None" "map_of (symlinks ?m') ?k = None"
    by (simp_all add: AList.delete_conv)
  moreover have "\<forall>k. k \<noteq> ?k \<longrightarrow>
      map_of (files ?m') k = map_of (files m) k \<and> map_of (symlinks ?m') k = map_of (symlinks m) k"
    by (simp add: AList.delete_conv)
  moreover have "files ?m' = filter (\<lambda>e. fst e \<noteq> ?k) (files m)"
    "symlinks ?m' = filter (\<lambda>e. fst e \<noteq> ?k) (symlinks m)"
    by (simp_all add: alist_delete_filter)
  ultimately show ?thesis
    by blast
qed

text \<open>
  \<^verbatim>\<open>unlink\<close> of \<^verbatim>\<open>/a\<close> where \<^verbatim>\<open>a\<close> is a file and \<^verbatim>\<open>b\<close> a file and a link;
  and \<^verbatim>\<open>unlink\<close> of a path that is in neither map.
\<close>

theorem mem_unlink_total_witness:
  "''b'' \<noteq> mem_normalize ''/a''
   \<and> (\<exists>m'. mem_unlink
              (mem_symlink (mem_writeFile (mem_writeFile mem_empty ''a'' [1]) ''b'' [2]) ''a'' ''b'')
              ''/a'' = Inr m'
          \<and> map_of (files m') ''a'' = None
          \<and> map_of (files m') ''b'' = Some [2]
          \<and> map_of (symlinks m') ''b'' = Some ''a'')
   \<and> mem_unlink mem_empty ''nothing'' = Inr mem_empty"
  using mem_unlink_total
    [of "mem_symlink (mem_writeFile (mem_writeFile mem_empty ''a'' [1]) ''b'' [2]) ''a'' ''b''"
      "''/a''"]
    mem_unlink_total [of mem_empty "''nothing''"]
  by (auto simp: mem_normalize_def strip_leading_slashes_def mem_symlink_def mem_writeFile_def
        mem_empty_def)

section \<open>Evaluation rules\<close>

lemmas path_eval = normalizePath_def strip_leading_slashes_def strip_trailing_slashes_def

lemmas sql_eval = select_chunk0_def select_rows_def select_child_def sql_insert_def
  insert_or_ignore_def insert_or_replace_def delete_path_def dir_row_def same_key_def
  createSchema_def

lemmas vocab_eval = exists_as_dir_def exists_as_file_def absent_def

lemma small_repo_built:
  "mkdir (createSchema 0) ''x'' 1 = Inr (take 2 small_repo)"
  "writeFile (take 2 small_repo) ''f'' [49] 0 2 = Inr (take 3 small_repo)"
  "writeFile (take 3 small_repo) ''d/f'' [49] 3 4 = Inr small_repo"
  by (simp_all add: small_repo_def mkdir_def writeFile_def chunk_row_def toBuffer_def
        CHUNK_SIZE_def path_eval sql_eval upt_rec [of 0])

section \<open>Claims about directories of the SQLite filesystem\<close>

lemma mkdir_cases:
  fixes t p now
  defines "n \<equiv> strip_trailing_slashes (normalizePath p)"
  defines "deep \<equiv> length (split_slash n) > 1"
  defines "parent \<equiv> join_slash (butlast (split_slash n))"
  shows "n = [] \<Longrightarrow> mkdir t p now = Inr t"
    and "n \<noteq> [] \<Longrightarrow> deep \<Longrightarrow> \<not> exists_as_dir t parent \<Longrightarrow>
           mkdir t p now = Inl (Errno ENOENT (- 2) p)"
    and "n \<noteq> [] \<Longrightarrow> deep \<longrightarrow> exists_as_dir t parent \<Longrightarrow> exists_as_dir t n \<Longrightarrow>
           mkdir t p now = Inr t"
    and "n \<noteq> [] \<Longrightarrow> deep \<longrightarrow> exists_as_dir t parent \<Longrightarrow> exists_as_file t n \<Longrightarrow>
           mkdir t p now = Inl (Errno EEXIST (- 17) p)"
    and "n \<noteq> [] \<Longrightarrow> deep \<longrightarrow> exists_as_dir t parent \<Longrightarrow> absent t n \<Longrightarrow>
           mkdir t p now = Inr (t @ [dir_row n (if deep then parent else []) now])"
proof -
  show "n = [] \<Longrightarrow> mkdir t p now = Inr t"
    by (simp add: mkdir_def n_def)
  show "n \<noteq> [] \<Longrightarrow> deep \<Longrightarrow> \<not> exists_as_dir t parent \<Longrightarrow>
           mkdir t p now = Inl (Errno ENOENT (- 2) p)"
    unfolding mkdir_def Let_def n_def [symmetric] deep_def parent_def exists_as_dir_def
    by (simp split: option.splits)
  show "n \<noteq> [] \<Longrightarrow> deep \<longrightarrow> exists_as_dir t parent \<Longrightarrow> exists_as_dir t n \<Longrightarrow>
           mkdir t p now = Inr t"
    unfolding mkdir_def Let_def n_def [symmetric] deep_def parent_def exists_as_dir_def
    by (auto split: option.splits)
  show "n \<noteq> [] \<Longrightarrow> deep \<longrightarrow> exists_as_dir t parent \<Longrightarrow> exists_as_file t n \<Longrightarrow>
           mkdir t p now = Inl (Errno EEXIST (- 17) p)"
    unfolding mkdir_def Let_def n_def [symmetric] deep_def parent_def exists_as_dir_def
      exists_as_file_def
    by (auto split: option.splits)
  have noconf: "\<not> list_ex (same_key (dir_row n x now)) t" if "absent t n" for x
    using that
    by (auto simp: absent_def select_chunk0_def find_None_iff list_ex_iff same_key_def dir_row_def)
  show "n \<noteq> [] \<Longrightarrow> deep \<longrightarrow> exists_as_dir t parent \<Longrightarrow> absent t n \<Longrightarrow>
           mkdir t p now = Inr (t @ [dir_row n (if deep then parent else []) now])"
    using noconf
    unfolding mkdir_def Let_def n_def [symmetric] deep_def parent_def exists_as_dir_def
    by (auto simp: absent_def insert_or_ignore_def split: option.splits)
qed

text \<open>
  C8.  With \<open>n\<close> the normalised path without trailing slashes, \<^verbatim>\<open>mkdir\<close>
  returns the table unchanged when \<open>n\<close> is empty; raises \<^verbatim>\<open>ENOENT\<close> when \<open>n\<close>
  has more than one segment and its parent is not a directory; otherwise
  returns the table unchanged when \<open>n\<close> is a directory, raises \<^verbatim>\<open>EEXIST\<close>
  when \<open>n\<close> is a file, and when \<open>n\<close> is absent appends exactly one chunk-0
  directory row for \<open>n\<close>, every other row staying as it was.
\<close>

theorem mkdir_behaviour:
  fixes t p now
  defines "n \<equiv> strip_trailing_slashes (normalizePath p)"
  defines "deep \<equiv> length (split_slash n) > 1"
  defines "parent \<equiv> join_slash (butlast (split_slash n))"
  shows "(n = [] \<longrightarrow> mkdir t p now = Inr t)
       \<and> (n \<noteq> [] \<and> deep \<and> \<not> exists_as_dir t parent \<longrightarrow>
            mkdir t p now = Inl (Errno ENOENT (- 2) p))
       \<and> (n \<noteq> [] \<and> (deep \<longrightarrow> exists_as_dir t parent) \<and> exists_as_dir t n \<longrightarrow>
            mkdir t p now = Inr t)
       \<and> (n \<noteq> [] \<and> (deep \<longrightarrow> exists_as_dir t parent) \<and> exists_as_file t n \<longrightarrow>
            mkdir t p now = Inl (Errno EEXIST (- 17) p))
       \<and> (n \<noteq> [] \<and> (deep \<longrightarrow> exists_as_dir t parent) \<and> absent t n \<longrightarrow>
            mkdir t p now = Inr (t @ [dir_row n (if deep then parent else []) now]))"
  using mkdir_cases [where t = t and p = p and now = now]
  unfolding n_def deep_def parent_def by blast

text \<open>
  On the small repository: \<^verbatim>\<open>mkdir /\<close> changes nothing, \<^verbatim>\<open>mkdir a/b\<close> has no
  parent, \<^verbatim>\<open>mkdir x/\<close> finds the directory, \<^verbatim>\<open>mkdir f\<close> finds a file, and
  \<^verbatim>\<open>mkdir x/y\<close> adds one row.
\<close>

theorem mkdir_behaviour_witness:
  "strip_trailing_slashes (normalizePath ''/'') = []
   \<and> mkdir small_repo ''/'' 9 = Inr small_repo
   \<and> length (split_slash ''a/b'') > 1 \<and> \<not> exists_as_dir small_repo ''a''
   \<and> mkdir small_repo ''a/b'' 9 = Inl (Errno ENOENT (- 2) ''a/b'')
   \<and> strip_trailing_slashes (normalizePath ''x/'') = ''x'' \<and> exists_as_dir small_repo ''x''
   \<and> mkdir small_repo ''x/'' 9 = Inr small_repo
   \<and> exists_as_file small_repo ''f''
   \<and> mkdir small_repo ''f'' 9 = Inl (Errno EEXIST (- 17) ''f'')
   \<and> exists_as_dir small_repo ''x'' \<and> absent small_repo ''x/y''
   \<and> mkdir small_repo ''x/y'' 9 = Inr (small_repo @ [dir_row ''x/y'' ''x'' 9])"
  using mkdir_behaviour [where t = small_repo and p = "''/''" and now = 9]
    mkdir_behaviour [where t = small_repo and p = "''a/b''" and now = 9]
    mkdir_behaviour [where t = small_repo and p = "''x/''" and now = 9]
    mkdir_behaviour [where t = small_repo and p = "''f''" and now = 9]
    mkdir_behaviour [where t = small_repo and p = "''x/y''" and now = 9]
  by (simp add: small_repo_def chunk_row_def path_eval sql_eval vocab_eval)

lemma select_chunk0_delete_path [simp]: "select_chunk0 (delete_path t p) p = None"
  by (induction t) (simp_all add: select_chunk0_def delete_path_def)

lemma unlink_rmdir_cases:
  fixes t p
  defines "n \<equiv> normalizePath p"
  defines "d \<equiv> strip_trailing_slashes (normalizePath p)"
  shows "exists_as_dir t n \<Longrightarrow> unlink t p = Inl (Errno EPERM (- 1) p)"
    and "absent t n \<Longrightarrow> unlink t p = Inl (Errno ENOENT (- 2) p)"
    and "d = [] \<Longrightarrow> rmdir t p = Inl (Error ''Cannot remove root directory'')"
    and "d \<noteq> [] \<Longrightarrow> exists_as_file t d \<Longrightarrow> rmdir t p = Inl (Errno ENOTDIR (- 20) p)"
    and "d \<noteq> [] \<Longrightarrow> exists_as_dir t d \<Longrightarrow> select_child t d \<noteq> None \<Longrightarrow>
           rmdir t p = Inl (Errno ENOTEMPTY (- 39) p)"
    and "d \<noteq> [] \<Longrightarrow> absent t d \<Longrightarrow> rmdir t p = Inl (Errno ENOENT (- 2) p)"
    and "d \<noteq> [] \<Longrightarrow> exists_as_dir t d \<Longrightarrow> select_child t d = None \<Longrightarrow>
           rmdir t p = Inr (delete_path t d)
           \<and> absent (delete_path t d) d
           \<and> rmdir (delete_path t d) p = Inl (Errno ENOENT (- 2) p)"
proof -
  show "exists_as_dir t n \<Longrightarrow> unlink t p = Inl (Errno EPERM (- 1) p)"
    unfolding unlink_def Let_def n_def exists_as_dir_def by (auto split: option.splits)
  show "absent t n \<Longrightarrow> unlink t p = Inl (Errno ENOENT (- 2) p)"
    unfolding unlink_def Let_def n_def absent_def by simp
  show "d = [] \<Longrightarrow> rmdir t p = Inl (Error ''Cannot remove root directory'')"
    unfolding rmdir_def Let_def d_def by simp
  show "d \<noteq> [] \<Longrightarrow> exists_as_file t d \<Longrightarrow> rmdir t p = Inl (Errno ENOTDIR (- 20) p)"
    unfolding rmdir_def Let_def d_def exists_as_file_def by (auto split: option.splits)
  show "d \<noteq> [] \<Longrightarrow> exists_as_dir t d \<Longrightarrow> select_child t d \<noteq> None \<Longrightarrow>
           rmdir t p = Inl (Errno ENOTEMPTY (- 39) p)"
    unfolding rmdir_def Let_def d_def exists_as_dir_def by (auto split: option.splits)
  show "d \<noteq> [] \<Longrightarrow> absent t d \<Longrightarrow> rmdir t p = Inl (Errno ENOENT (- 2) p)"
    unfolding rmdir_def Let_def d_def absent_def by simp
  show "d \<noteq> [] \<Longrightarrow> exists_as_dir t d \<Longrightarrow> select_child t d = None \<Longrightarrow>
           rmdir t p = Inr (delete_path t d)
           \<and> absent (delete_path t d) d
           \<and> rmdir (delete_path t d) p = Inl (Errno ENOENT (- 2) p)"
    unfolding rmdir_def Let_def d_def exists_as_dir_def absent_def
    by (auto split: option.splits)
qed

text \<open>
  C7 (as amended).  \<^verbatim>\<open>unlink\<close> raises \<^verbatim>\<open>EPERM\<close> when the target is a directory
  and \<^verbatim>\<open>ENOENT\<close> when it is absent.  For a target other than the root,
  \<^verbatim>\<open>rmdir\<close> raises \<^verbatim>\<open>ENOTDIR\<close> when the target is a file, \<^verbatim>\<open>ENOTEMPTY\<close> when
  it is a directory and some chunk-0 row has it as \<open>parent_path\<close>, \<^verbatim>\<open>ENOENT\<close>
  when it is absent, and otherwise deletes the rows of the directory, after
  which the directory is absent and a second \<^verbatim>\<open>rmdir\<close> raises \<^verbatim>\<open>ENOENT\<close>.  On
  the root \<^verbatim>\<open>rmdir\<close> raises the plain error "Cannot remove root directory"
  in every state.
\<close>

theorem unlink_rmdir_errors_amended:
  fixes t p
  defines "n \<equiv> normalizePath p"
  defines "d \<equiv> strip_trailing_slashes (normalizePath p)"
  shows "(exists_as_dir t n \<longrightarrow> unlink t p = Inl (Errno EPERM (- 1) p))
       \<and> (absent t n \<longrightarrow> unlink t p = Inl (Errno ENOENT (- 2) p))
       \<and> (d = [] \<longrightarrow> rmdir t p = Inl (Error ''Cannot remove root directory''))
       \<and> (d \<noteq> [] \<and> exists_as_file t d \<longrightarrow> rmdir t p = Inl (Errno ENOTDIR (- 20) p))
       \<and> (d \<noteq> [] \<and> exists_as_dir t d \<and> select_child t d \<noteq> None \<longrightarrow>
            rmdir t p = Inl (Errno ENOTEMPTY (- 39) p))
       \<and> (d \<noteq> [] \<and> absent t d \<longrightarrow> rmdir t p = Inl (Errno ENOENT (- 2) p))
       \<and> (d \<noteq> [] \<and> exists_as_dir t d \<and> select_child t d = None \<longrightarrow>
            rmdir t p = Inr (delete_path t d)
            \<and> absent (delete_path t d) d
            \<and> rmdir (delete_path t d) p = Inl (Errno ENOENT (- 2) p))"
  using unlink_rmdir_cases [where t = t and p = p]
  unfolding n_def d_def by blast

text \<open>
  On the small repository: \<^verbatim>\<open>unlink x\<close> and \<^verbatim>\<open>unlink nothing\<close>; \<^verbatim>\<open>rmdir\<close> of
  the root, of the file \<^verbatim>\<open>f\<close>, of the non-empty \<^verbatim>\<open>d\<close>, of \<^verbatim>\<open>nothing\<close>, and
  of the empty \<^verbatim>\<open>x\<close>, twice.
\<close>

theorem unlink_rmdir_errors_amended_witness:
  "exists_as_dir small_repo (normalizePath ''x'')
   \<and> unlink small_repo ''x'' = Inl (Errno EPERM (- 1) ''x'')
   \<and> absent small_repo (normalizePath ''nothing'')
   \<and> unlink small_repo ''nothing'' = Inl (Errno ENOENT (- 2) ''nothing'')
   \<and> strip_trailing_slashes (normalizePath ''/'') = []
   \<and> rmdir small_repo ''/'' = Inl (Error ''Cannot remove root directory'')
   \<and> exists_as_file small_repo ''f''
   \<and> rmdir small_repo ''f'' = Inl (Errno ENOTDIR (- 20) ''f'')
   \<and> exists_as_dir small_repo ''d'' \<and> select_child small_repo ''d'' \<noteq> None
   \<and> rmdir small_repo ''d'' = Inl (Errno ENOTEMPTY (- 39) ''d'')
   \<and> rmdir small_repo ''nothing'' = Inl (Errno ENOENT (- 2) ''nothing'')
   \<and> exists_as_dir small_repo ''x'' \<and> select_child small_repo ''x'' = None
   \<and> rmdir small_repo ''x'' = Inr (delete_path small_repo ''x'')
   \<and> rmdir (delete_path small_repo ''x'') ''x'' = Inl (Errno ENOENT (- 2) ''x'')"
  using unlink_rmdir_errors_amended [where t = small_repo and p = "''x''"]
    unlink_rmdir_errors_amended [where t = small_repo and p = "''nothing''"]
    unlink_rmdir_errors_amended [where t = small_repo and p = "''/''"]
    unlink_rmdir_errors_amended [where t = small_repo and p = "''f''"]
    unlink_rmdir_errors_amended [where t = small_repo and p = "''d''"]
  by (simp add: small_repo_def chunk_row_def path_eval sql_eval vocab_eval)

text \<open>
  C7 as stated fails on the root: in the small repository the root is a
  directory with children, and \<^verbatim>\<open>rmdir\<close> raises the plain error, not
  \<^verbatim>\<open>ENOTEMPTY\<close>.
\<close>

theorem rmdir_root_counterexample:
  "exists_as_dir small_repo '''' \<and> select_child small_repo '''' \<noteq> None
   \<and> rmdir small_repo '''' = Inl (Error ''Cannot remove root directory'')
   \<and> rmdir small_repo '''' \<noteq> Inl (Errno ENOTEMPTY (- 39) '''')"
  by (simp add: small_repo_def chunk_row_def rmdir_def path_eval sql_eval vocab_eval)

section \<open>Concatenation of buffers\<close>

lemma foldl_add_length:
  "foldl (\<lambda>n c. n + length c) a cs = a + length (concat cs)"
  by (induction cs arbitrary: a) simp_all

lemma copy_chunks_concat:
  "off + length (concat cs) \<le> length out \<Longrightarrow>
     copy_chunks cs out off = take off out @ concat cs @ drop (off + length (concat cs)) out"
proof (induction cs arbitrary: out off)
  case Nil
  then show ?case by simp
next
  case (Cons c cs)
  let ?out = "set_at out c off"
  have len: "length ?out = length out"
    using Cons.prems by (simp add: set_at_def)
  have tk: "take (off + length c) ?out = take off out @ c"
    using Cons.prems by (simp add: set_at_def)
  have dr: "drop (off + length c + n) ?out = drop (off + length c + n) out" for n
    using Cons.prems by (simp add: set_at_def ac_simps)
  have "copy_chunks cs ?out (off + length c) =
          take (off + length c) ?out @ concat cs
            @ drop (off + length c + length (concat cs)) ?out"
    using Cons.prems by (intro Cons.IH) (simp add: len)
  then show ?case
    using dr [of "length (concat cs)"] by (simp add: tk add.assoc)
qed

lemma concatBuffers_concat: "concatBuffers chunks = concat chunks"
proof (cases chunks)
  case Nil
  then show ?thesis by (simp add: concatBuffers_def)
next
  case (Cons c cs)
  show ?thesis
  proof (cases cs)
    case Nil
    with Cons show ?thesis by (simp add: concatBuffers_def)
  next
    case (Cons c' cs')
    have "copy_chunks chunks (replicate (length (concat chunks)) 0) 0 = concat chunks"
      by (subst copy_chunks_concat) simp_all
    with Cons \<open>chunks = c # cs\<close> show ?thesis
      by (simp add: concatBuffers_def foldl_add_length del: copy_chunks.simps)
  qed
qed

section \<open>Chunking\<close>

lemma CHUNK_SIZE_pos: "0 < CHUNK_SIZE"
  by (simp add: CHUNK_SIZE_def)

lemma slice_of_take: "slice_of bytes i = take CHUNK_SIZE (drop (i * CHUNK_SIZE) bytes)"
proof -
  have "min (i * CHUNK_SIZE + CHUNK_SIZE) (length bytes) - i * CHUNK_SIZE
          = min CHUNK_SIZE (length bytes - i * CHUNK_SIZE)"
    by simp
  then show ?thesis
    by (simp add: slice_of_def min_def)
qed

lemma concat_slices: "concat (map (slice_of bytes) [0 ..< k]) = take (k * CHUNK_SIZE) bytes"
proof (induction k)
  case 0
  then show ?case by simp
next
  case (Suc k)
  have "take (k * CHUNK_SIZE) bytes @ take CHUNK_SIZE (drop (k * CHUNK_SIZE) bytes)
          = take (k * CHUNK_SIZE + CHUNK_SIZE) bytes"
    by (simp add: take_add)
  with Suc show ?case
    by (simp add: slice_of_take add.commute)
qed

lemma chunkCount_covers: "n \<le> chunkCount n * CHUNK_SIZE"
proof -
  define q where "q = (n + CHUNK_SIZE - 1) div CHUNK_SIZE"
  define r where "r = (n + CHUNK_SIZE - 1) mod CHUNK_SIZE"
  have "q * CHUNK_SIZE + r = n + CHUNK_SIZE - 1"
    by (simp add: q_def r_def)
  moreover have "r < CHUNK_SIZE"
    using CHUNK_SIZE_pos by (simp add: r_def)
  ultimately have "n \<le> q * CHUNK_SIZE"
    by linarith
  then have "n \<le> ((n + CHUNK_SIZE - 1) div CHUNK_SIZE) * CHUNK_SIZE"
    by (simp add: q_def)
  also have "\<dots> \<le> chunkCount n * CHUNK_SIZE"
    by (simp add: chunkCount_def)
  finally show ?thesis .
qed

section \<open>What \<^verbatim>\<open>writeFile\<close> stores\<close>

lemma chunk_row_fields [simp]:
  "path (chunk_row n par bs now i) = n"
  "chunk_index (chunk_row n par bs now i) = i"
  "parent_path (chunk_row n par bs now i) = (if i = 0 then par else [])"
  "data (chunk_row n par bs now i) = Blob (slice_of bs i)"
  "is_dir (chunk_row n par bs now i) = 0"
  "size_col (chunk_row n par bs now i) = (if i = 0 then length bs else 0)"
  "mtime (chunk_row n par bs now i) = now"
  by (simp_all add: chunk_row_def Let_def toBuffer_def slice_of_def)

lemma write_chunks_append:
  assumes "\<forall>r \<in> set t. path r = n \<longrightarrow> chunk_index r \<notin> set js" and "distinct js"
  shows "write_chunks t n par bs now js = Inr (t @ map (chunk_row n par bs now) js)"
  using assms
proof (induction js arbitrary: t)
  case Nil
  then show ?case by simp
next
  case (Cons j js)
  have free: "\<not> list_ex (same_key (chunk_row n par bs now j)) t"
    using Cons.prems(1) by (auto simp: list_ex_iff same_key_def)
  have "write_chunks (t @ [chunk_row n par bs now j]) n par bs now js =
          Inr ((t @ [chunk_row n par bs now j]) @ map (chunk_row n par bs now) js)"
    using Cons.prems by (intro Cons.IH) auto
  with free show ?case
    by (simp add: sql_insert_def)
qed

lemma writeFile_result:
  "writeFile t p bs now_dirs now = Inr t' \<longleftrightarrow>
     normalizePath p \<noteq> [] \<and> \<not> exists_as_dir t (normalizePath p) \<and>
     t' = delete_path
            (if length (split_slash (normalizePath p)) > 1
             then ensure_parents t (split_slash (normalizePath p)) now_dirs
                    [0 ..< length (split_slash (normalizePath p)) - 1]
             else t)
            (normalizePath p)
          @ stored_rows (normalizePath p) bs now"
proof -
  define n where "n = normalizePath p"
  define t1 where "t1 = (if length (split_slash n) > 1
             then ensure_parents t (split_slash n) now_dirs [0 ..< length (split_slash n) - 1]
             else t)"
  define par where
    "par = (if length (split_slash n) > 1 then join_slash (butlast (split_slash n)) else [])"
  have wc: "write_chunks (delete_path t1 n) n par bs now [0 ..< chunkCount (length bs)]
              = Inr (delete_path t1 n @ stored_rows n bs now)"
    unfolding stored_rows_def par_def [symmetric]
    by (rule write_chunks_append) (simp_all add: delete_path_def)
  have "writeFile t p bs now_dirs now =
          (if n = [] then Inl (Error ''Cannot write to root'')
           else if exists_as_dir t n then Inl (Errno EISDIR (- 21) p)
           else write_chunks (delete_path t1 n) n par bs now [0 ..< chunkCount (length bs)])"
    unfolding writeFile_def Let_def n_def [symmetric] t1_def par_def exists_as_dir_def
      chunkCount_def
    by simp
  then show ?thesis
    unfolding n_def [symmetric] t1_def [symmetric] by (auto simp: wc)
qed

lemma stored_rows_path: "r \<in> set (stored_rows n bs now) \<Longrightarrow> path r = n"
  by (auto simp: stored_rows_def)

lemma stored_rows_index: "map chunk_index (stored_rows n bs now) = [0 ..< chunkCount (length bs)]"
  by (simp add: stored_rows_def comp_def map_idI)

lemma chunkCount_pos: "0 < chunkCount k"
  by (simp add: chunkCount_def)

lemma select_rows_fresh:
  assumes "\<forall>r \<in> set t. path r \<noteq> n" and "\<forall>r \<in> set rows. path r = n"
    and "sorted (map chunk_index rows)"
  shows "select_rows (t @ rows) n = rows"
proof -
  have "filter (\<lambda>r. path r = n) t = []"
    using assms(1) by (simp add: filter_empty_conv)
  moreover have "filter (\<lambda>r. path r = n) rows = rows"
    using assms(2) by (simp add: filter_id_conv)
  ultimately show ?thesis
    using assms(3) by (simp add: select_rows_def sort_key_id_if_sorted)
qed

lemma find_app:
  "find P (xs @ ys) = (case find P xs of None \<Rightarrow> find P ys | Some x \<Rightarrow> Some x)"
  by (induction xs) simp_all

lemma select_chunk0_fresh:
  assumes "\<forall>r \<in> set t. path r \<noteq> n"
  shows "select_chunk0 (t @ rows) n = select_chunk0 rows n"
proof -
  have "find (\<lambda>r. path r = n \<and> chunk_index r = 0) t = None"
    using assms by (auto simp: find_None_iff)
  then show ?thesis
    by (simp add: select_chunk0_def find_app)
qed

lemma delete_path_fresh: "\<forall>r \<in> set (delete_path t n). path r \<noteq> n"
  by (simp add: delete_path_def)

lemma select_rows_written:
  "select_rows (delete_path t n @ stored_rows n bs now) n = stored_rows n bs now"
  by (intro select_rows_fresh delete_path_fresh)
    (simp_all add: stored_rows_path stored_rows_index)

lemma select_chunk0_written:
  "select_chunk0 (delete_path t n @ stored_rows n bs now) n =
     Some (chunk_row n (if length (split_slash n) > 1 then join_slash (butlast (split_slash n)) else [])
             bs now 0)"
proof -
  have "[0 ..< chunkCount (length bs)] = 0 # [1 ..< chunkCount (length bs)]"
    using chunkCount_pos [of "length bs"] by (simp add: upt_rec)
  then have "select_chunk0 (stored_rows n bs now) n = Some (chunk_row n
     (if length (split_slash n) > 1 then join_slash (butlast (split_slash n)) else []) bs now 0)"
    by (simp add: stored_rows_def select_chunk0_def)
  then show ?thesis
    by (simp add: select_chunk0_fresh delete_path_fresh)
qed

lemma decode_rows_blobs:
  "\<forall>r \<in> set rows. \<exists>b. data r = Blob b \<Longrightarrow>
     decode_rows rows = Inr (map (\<lambda>r. case data r of Blob b \<Rightarrow> b | _ \<Rightarrow> []) rows)"
  by (induction rows) (auto simp: rowDataToBytes_def)

lemma decode_stored_rows:
  "decode_rows (stored_rows n bs now) = Inr (map (slice_of bs) [0 ..< chunkCount (length bs)])"
  by (subst decode_rows_blobs) (auto simp: stored_rows_def)

lemma read_back:
  "concatBuffers (map (slice_of bs) [0 ..< chunkCount (length bs)]) = bs"
  by (simp add: concatBuffers_concat concat_slices chunkCount_covers)

lemma slice_of_empty [simp]: "slice_of [] i = []"
  by (simp add: slice_of_def)

lemma readFile_after_write:
  assumes "writeFile t p bs now_dirs now = Inr t'"
  shows "readFile t' p = Inr bs"
proof -
  obtain t1 where t': "t' = delete_path t1 (normalizePath p) @ stored_rows (normalizePath p) bs now"
    using assms unfolding writeFile_result by blast
  show ?thesis
    unfolding readFile_def Let_def t' select_chunk0_written select_rows_written
    by (simp add: decode_stored_rows read_back)
qed

lemma stat_after_write:
  assumes "writeFile t p bs now_dirs now = Inr t'"
  shows "stat t' p = Inr \<lparr>stat_type = File, stat_mode = 33188, stat_size = int (length bs),
                          stat_mtimeMs = now, stat_isSymbolicLink = False\<rparr>"
proof -
  obtain t1 where t': "t' = delete_path t1 (normalizePath p) @ stored_rows (normalizePath p) bs now"
    using assms unfolding writeFile_result by blast
  show ?thesis
    unfolding stat_def Let_def t' select_chunk0_written
    by (auto simp: slice_of_take)
qed

section \<open>Segments and parents\<close>

lemma split_slash_nonempty [simp]: "split_slash s \<noteq> []"
  by (induction s) (auto split: list.splits)

lemma join_split_slash [simp]: "join_slash (split_slash s) = s"
proof (induction s)
  case Nil
  then show ?case by simp
next
  case (Cons c cs)
  obtain w ws where ws: "split_slash cs = w # ws"
    by (cases "split_slash cs") simp_all
  show ?case
  proof (cases "c = CHR ''/''")
    case True
    with Cons ws show ?thesis by simp
  next
    case False
    with Cons ws show ?thesis by (cases ws) simp_all
  qed
qed

lemma split_slash_no_slash: "w \<in> set (split_slash s) \<Longrightarrow> CHR ''/'' \<notin> set w"
  by (induction s arbitrary: w) (auto split: if_splits list.splits)

lemma split_slash_single: "1 < length (split_slash s) \<longleftrightarrow> CHR ''/'' \<in> set s"
  by (induction s) (auto split: list.splits)

lemma join_slash_snoc: "ws \<noteq> [] \<Longrightarrow> join_slash (ws @ [w]) = join_slash ws @ CHR ''/'' # w"
  by (induction ws rule: join_slash.induct) simp_all

lemma parent_of_snoc:
  assumes "CHR ''/'' \<notin> set w"
  shows "parent_of (d @ CHR ''/'' # w) = d"
proof -
  have "dropWhile (\<lambda>c. c \<noteq> CHR ''/'') (rev w @ CHR ''/'' # rev d) = CHR ''/'' # rev d"
    using assms by (subst dropWhile_append2) auto
  then show ?thesis
    by (simp add: parent_of_def)
qed

lemma parent_of_flat: "CHR ''/'' \<notin> set s \<Longrightarrow> parent_of s = []"
proof -
  assume "CHR ''/'' \<notin> set s"
  then have "\<forall>c \<in> set (rev s). c \<noteq> CHR ''/''"
    by auto
  then have dw: "dropWhile (\<lambda>c. c \<noteq> CHR ''/'') (rev s) = []"
    by simp
  show ?thesis
    unfolding parent_of_def dw by simp
qed

lemma parentPath_parent_of:
  "(if 1 < length (split_slash n) then join_slash (butlast (split_slash n)) else []) = parent_of n"
proof (cases "1 < length (split_slash n)")
  case True
  define ws where "ws = split_slash n"
  have ne: "butlast ws \<noteq> []"
    using True unfolding ws_def by (cases "split_slash n" rule: rev_cases) auto
  have "ws = butlast ws @ [last ws]"
    by (simp add: ws_def)
  then have "join_slash ws = join_slash (butlast ws) @ CHR ''/'' # last ws"
    using join_slash_snoc [OF ne, of "last ws"] by simp
  moreover have "join_slash ws = n"
    by (simp add: ws_def)
  moreover have "CHR ''/'' \<notin> set (last ws)"
    by (rule split_slash_no_slash [of _ n]) (simp add: ws_def)
  ultimately have "parent_of n = join_slash (butlast ws)"
    using parent_of_snoc by metis
  with True show ?thesis
    by (simp add: ws_def)
next
  case False
  then have "CHR ''/'' \<notin> set n"
    using split_slash_single [of n] by simp
  with False show ?thesis
    by (simp add: parent_of_flat)
qed

lemma stored_rows_parent_of:
  "stored_rows n bs now = map (chunk_row n (parent_of n) bs now) [0 ..< chunkCount (length bs)]"
  by (simp only: stored_rows_def parentPath_parent_of)

lemma chunkCount_tight: "0 < n \<Longrightarrow> (chunkCount n - 1) * CHUNK_SIZE < n"
proof -
  assume pos: "0 < n"
  define q where "q = (n + CHUNK_SIZE - 1) div CHUNK_SIZE"
  have "q * CHUNK_SIZE \<le> n + CHUNK_SIZE - 1"
    by (simp add: q_def)
  then have "q * CHUNK_SIZE < n + CHUNK_SIZE"
    using pos by linarith
  then have "(q - 1) * CHUNK_SIZE < n"
    using pos by (cases q) simp_all
  moreover have "chunkCount n = max 1 q"
    by (simp add: chunkCount_def q_def)
  ultimately show ?thesis
    using pos by (cases "q = 0") (simp_all add: max_def)
qed

lemma chunkCount_zero: "chunkCount 0 = 1"
  by (simp add: chunkCount_def CHUNK_SIZE_def)

lemma upt_0_3: "[0 ..< 3] = [0, 1, 2]"
  by (simp add: numeral_3_eq_3 numeral_2_eq_2)

section \<open>Claims about writing and reading files\<close>

text \<open>
  C1.  Whenever \<^verbatim>\<open>writeFile\<close> of the bytes \<open>b\<close> to the path \<open>p\<close> succeeds,
  \<^verbatim>\<open>readFile\<close> of \<open>p\<close> on the resulting table returns exactly \<open>b\<close>, the empty
  sequence included, and \<^verbatim>\<open>stat\<close> of \<open>p\<close> reports a file of size
  \<open>length b\<close>.
\<close>

theorem write_then_read:
  assumes "writeFile t p b now_dirs now = Inr t'"
  shows "readFile t' p = Inr b
       \<and> stat t' p = Inr \<lparr>stat_type = File, stat_mode = 33188, stat_size = int (length b),
                           stat_mtimeMs = now, stat_isSymbolicLink = False\<rparr>"
  using readFile_after_write [OF assms] stat_after_write [OF assms] by simp

text \<open>
  Writing the byte \<open>49\<close> to \<^verbatim>\<open>d/f\<close> gives the small repository, which reads it
  back; and an empty write to \<^verbatim>\<open>/e\<close> on top of it succeeds and reads back
  empty.
\<close>

theorem write_then_read_witness:
  "writeFile (take 3 small_repo) ''d/f'' [49] 3 4 = Inr small_repo
   \<and> readFile small_repo ''d/f'' = Inr [49]
   \<and> stat small_repo ''d/f'' = Inr \<lparr>stat_type = File, stat_mode = 33188, stat_size = 1,
                                     stat_mtimeMs = 4, stat_isSymbolicLink = False\<rparr>
   \<and> writeFile small_repo ''/e'' [] 5 6 = Inr (small_repo @ [chunk_row ''e'' [] [] 6 0])
   \<and> readFile (small_repo @ [chunk_row ''e'' [] [] 6 0]) ''/e'' = Inr []"
proof -
  have w1: "writeFile (take 3 small_repo) ''d/f'' [49] 3 4 = Inr small_repo"
    by (rule small_repo_built)
  have w2: "writeFile small_repo ''/e'' [] 5 6 = Inr (small_repo @ [chunk_row ''e'' [] [] 6 0])"
    by (simp add: small_repo_def writeFile_def chunk_row_def toBuffer_def
        CHUNK_SIZE_def path_eval sql_eval upt_rec [of 0])
  show ?thesis
    using write_then_read [OF w1] write_then_read [OF w2] w1 w2 by simp
qed

text \<open>
  C2.  Whenever \<^verbatim>\<open>writeFile\<close> of \<open>b\<close> to \<open>p\<close> succeeds, the rows stored for the
  normalised path have the chunk indices \<open>0, 1, \<dots>\<close> without a gap; for a
  non-empty \<open>b\<close>, and so for every \<open>b\<close> longer than the chunk size of exactly
  1,843,200 bytes, their number \<open>k\<close> is the rounded-up quotient of the length by
  the chunk size (\<open>(k - 1) * C < length b \<le> k * C\<close>); the chunk-0 row has the
  parent of the path as \<open>parent_path\<close> and \<open>length b\<close> as size; every row
  with a positive chunk index has the empty \<open>parent_path\<close> and size 0; and an
  empty \<open>b\<close> gives exactly one chunk-0 row, with a zero-length blob and size 0.
\<close>

theorem write_chunk_rows:
  fixes t p b now_dirs now t'
  defines "n \<equiv> normalizePath p"
  defines "rows \<equiv> select_rows t' n"
  assumes "writeFile t p b now_dirs now = Inr t'"
  shows "CHUNK_SIZE = 1843200
       \<and> length (filter (\<lambda>r. path r = n) t') = length rows
       \<and> map chunk_index rows = [0 ..< length rows]
       \<and> (0 < length b \<longrightarrow>
            (length rows - 1) * CHUNK_SIZE < length b \<and> length b \<le> length rows * CHUNK_SIZE)
       \<and> select_chunk0 t' n = Some (hd rows)
       \<and> parent_path (hd rows) = parent_of n \<and> size_col (hd rows) = length b
       \<and> (\<forall>r \<in> set rows. 0 < chunk_index r \<longrightarrow> parent_path r = [] \<and> size_col r = 0)
       \<and> (b = [] \<longrightarrow>
            rows = [\<lparr>path = n, chunk_index = 0, parent_path = parent_of n, data = Blob [],
                     is_dir = 0, size_col = 0, mtime = now\<rparr>])"
proof -
  obtain t1 where t': "t' = delete_path t1 n @ stored_rows n b now"
    using assms(3) unfolding writeFile_result n_def by blast
  have rows: "rows = stored_rows n b now"
    unfolding rows_def t' by (rule select_rows_written)
  have len: "length rows = chunkCount (length b)"
    by (simp add: rows stored_rows_def)
  have hd: "hd rows = chunk_row n (parent_of n) b now 0"
    using chunkCount_pos [of "length b"]
    by (simp add: rows stored_rows_parent_of hd_map upt_rec [of 0])
  have "CHUNK_SIZE = 1843200"
    by (simp add: CHUNK_SIZE_def)
  moreover have "length (filter (\<lambda>r. path r = n) t') = length rows"
    by (simp add: rows_def select_rows_def)
  moreover have "map chunk_index rows = [0 ..< length rows]"
    by (simp add: len) (simp add: rows stored_rows_index)
  moreover have "0 < length b \<longrightarrow>
      (length rows - 1) * CHUNK_SIZE < length b \<and> length b \<le> length rows * CHUNK_SIZE"
    using chunkCount_tight [of "length b"] chunkCount_covers [of "length b"]
    by (simp add: len)
  moreover have "select_chunk0 t' n = Some (hd rows)"
    unfolding t' select_chunk0_written hd by (simp only: parentPath_parent_of)
  moreover have "parent_path (hd rows) = parent_of n \<and> size_col (hd rows) = length b"
    by (simp add: hd)
  moreover have "\<forall>r \<in> set rows. 0 < chunk_index r \<longrightarrow> parent_path r = [] \<and> size_col r = 0"
    by (auto simp: rows stored_rows_def)
  moreover have "b = [] \<longrightarrow>
      rows = [\<lparr>path = n, chunk_index = 0, parent_path = parent_of n, data = Blob [],
               is_dir = 0, size_col = 0, mtime = now\<rparr>]"
    by (simp add: rows stored_rows_parent_of chunkCount_zero chunk_row_def toBuffer_def)
  ultimately show ?thesis
    by blast
qed

text \<open>
  A buffer of 5,000,000 bytes written to \<^verbatim>\<open>big.bin\<close> on a fresh table is
  stored in three rows; and the empty write to \<^verbatim>\<open>/e\<close> on the small
  repository stores one.
\<close>

theorem write_chunk_rows_witness:
  "(\<exists>t'. writeFile (createSchema 0) ''big.bin'' (replicate 5000000 171) 1 2 = Inr t'
      \<and> 0 < length (replicate 5000000 (171 :: byte))
      \<and> CHUNK_SIZE < length (replicate 5000000 (171 :: byte))
      \<and> length (select_rows t' ''big.bin'') = 3
      \<and> map chunk_index (select_rows t' ''big.bin'') = [0, 1, 2]
      \<and> map size_col (select_rows t' ''big.bin'') = [5000000, 0, 0])
   \<and> writeFile small_repo ''/e'' [] 5 6 = Inr (small_repo @ [chunk_row ''e'' [] [] 6 0])
   \<and> select_rows (small_repo @ [chunk_row ''e'' [] [] 6 0]) ''e'' =
         [\<lparr>path = ''e'', chunk_index = 0, parent_path = [], data = Blob [],
           is_dir = 0, size_col = 0, mtime = 6\<rparr>]"
proof -
  have e: "normalizePath ''/e'' = ''e''" "parent_of ''e'' = []"
    by (simp_all add: path_eval parent_of_def)
  have w2: "writeFile small_repo ''/e'' [] 5 6 = Inr (small_repo @ [chunk_row ''e'' [] [] 6 0])"
    by (simp add: small_repo_def writeFile_def chunk_row_def toBuffer_def
        CHUNK_SIZE_def path_eval sql_eval upt_rec [of 0])
  have empty: "select_rows (small_repo @ [chunk_row ''e'' [] [] 6 0]) ''e'' =
         [\<lparr>path = ''e'', chunk_index = 0, parent_path = [], data = Blob [],
           is_dir = 0, size_col = 0, mtime = 6\<rparr>]"
    using write_chunk_rows [OF w2] by (simp add: e)
  let ?b = "replicate 5000000 (171 :: byte)"
  have n: "normalizePath ''big.bin'' = ''big.bin''"
    by (simp add: path_eval)
  have "normalizePath ''big.bin'' \<noteq> [] \<and> \<not> exists_as_dir (createSchema 0) (normalizePath ''big.bin'')"
    by (simp add: n vocab_eval sql_eval)
  then obtain t' where w: "writeFile (createSchema 0) ''big.bin'' ?b 1 2 = Inr t'"
    unfolding writeFile_result by blast
  let ?rows = "select_rows t' ''big.bin''"
  note th = write_chunk_rows [OF w, unfolded n]
  have "(length ?rows - 1) * 1843200 < 5000000 \<and> 5000000 \<le> length ?rows * 1843200"
    using th by simp
  then have k: "length ?rows = 3"
    by arith
  have idx: "map chunk_index ?rows = [0, 1, 2]"
    using th k by (simp add: upt_0_3)
  obtain r0 r1 r2 where rows: "?rows = [r0, r1, r2]"
    using k by (auto simp: length_Suc_conv numeral_3_eq_3)
  have "size_col r0 = 5000000" "size_col r1 = 0" "size_col r2 = 0"
    using th idx unfolding rows by simp_all
  then have "map size_col ?rows = [5000000, 0, 0]"
    by (simp add: rows)
  with w k idx w2 empty show ?thesis
    by (simp add: CHUNK_SIZE_def)
qed

section \<open>Base64 text and its decoded length\<close>

lemma length_decode_sextets: "length (decode_sextets xs) = length xs * 3 div 4"
  by (induction xs rule: decode_sextets.induct) simp_all

lemma sextet_equals: "sextet CHR ''='' = None"
  by (simp add: sextet_def)

lemma takeWhile_equals_none:
  "\<forall>c \<in> set xs. sextet c \<noteq> None \<Longrightarrow> takeWhile (\<lambda>c. c = CHR ''='') xs = []"
  by (cases xs) (auto simp: sextet_equals)

lemma two_pads:
  assumes "(n::nat) mod 4 = 0" and "2 \<le> n"
  shows "n * 3 div 4 = (n - 2) * 3 div 4 + 2"
proof -
  obtain k where n: "n = 4 * k"
    using assms(1) by (auto simp: mod_eq_0_iff_dvd elim: dvdE)
  with assms(2) obtain j where k: "k = Suc j"
    by (cases k) auto
  have "(n - 2) * 3 = 4 * (3 * j + 1) + 2"
    by (simp add: n k)
  then have "(n - 2) * 3 div 4 = 3 * j + 1"
    by simp
  moreover have "n * 3 div 4 = 3 * j + 3"
    by (simp add: n k)
  ultimately show ?thesis
    by simp
qed

lemma one_pad:
  assumes "(n::nat) mod 4 = 0" and "1 \<le> n"
  shows "n * 3 div 4 = (n - 1) * 3 div 4 + 1"
proof -
  obtain k where n: "n = 4 * k"
    using assms(1) by (auto simp: mod_eq_0_iff_dvd elim: dvdE)
  with assms(2) obtain j where k: "k = Suc j"
    by (cases k) auto
  have "(n - 1) * 3 = 4 * (3 * j + 2) + 1"
    by (simp add: n k)
  then have "(n - 1) * 3 div 4 = 3 * j + 2"
    by simp
  moreover have "n * 3 div 4 = 3 * j + 3"
    by (simp add: n k)
  ultimately show ?thesis
    by simp
qed

lemma drop_padding_length:
  assumes len: "length xs mod 4 = 0"
    and ok: "\<forall>c \<in> set (drop_padding_rev xs). sextet c \<noteq> None"
  shows "length xs * 3 div 4
           = length (drop_padding_rev xs) * 3 div 4 + length (takeWhile (\<lambda>c. c = CHR ''='') xs)"
proof (cases xs rule: drop_padding_rev.cases)
  case (1 a b r)
  show ?thesis
  proof (cases "a = CHR ''=''")
    case a: True
    show ?thesis
    proof (cases "b = CHR ''=''")
      case True
      have "takeWhile (\<lambda>c. c = CHR ''='') r = []"
        using ok a True by (intro takeWhile_equals_none) (simp add: 1)
      then have "length (takeWhile (\<lambda>c. c = CHR ''='') xs) = 2"
        by (simp add: 1 a True)
      moreover have "length (drop_padding_rev xs) = length xs - 2"
        by (simp add: 1 a True)
      moreover have "2 \<le> length xs"
        by (simp add: 1)
      ultimately show ?thesis
        using two_pads [OF len] by simp
    next
      case False
      have "length (takeWhile (\<lambda>c. c = CHR ''='') xs) = 1"
        by (simp add: 1 a False)
      moreover have "length (drop_padding_rev xs) = length xs - 1"
        by (simp add: 1 a False)
      moreover have "1 \<le> length xs"
        by (simp add: 1)
      ultimately show ?thesis
        using one_pad [OF len] by simp
    qed
  next
    case False
    then show ?thesis
      by (simp add: 1)
  qed
next
  case (2 a)
  with len show ?thesis by simp
next
  case 3
  then show ?thesis by simp
qed

lemma padded_length:
  assumes ok: "\<forall>c \<in> set (strip_padding s). sextet c \<noteq> None"
  shows "length s * 3 div 4 = length (strip_padding s) * 3 div 4 + trailing_equals s"
proof (cases "length s mod 4 = 0")
  case False
  then have d: "strip_padding s = s"
    by (simp add: strip_padding_def)
  have "trailing_equals s = 0"
    using ok unfolding d trailing_equals_def
    by (simp add: takeWhile_equals_none)
  then show ?thesis
    by (simp add: d)
next
  case True
  then have d: "strip_padding s = rev (drop_padding_rev (rev s))"
    by (simp add: strip_padding_def)
  have "length (rev s) * 3 div 4
          = length (drop_padding_rev (rev s)) * 3 div 4
            + length (takeWhile (\<lambda>c. c = CHR ''='') (rev s))"
    using True ok unfolding d by (intro drop_padding_length) simp_all
  then show ?thesis
    by (simp add: trailing_equals_def d)
qed

lemma atob_length:
  assumes "atob s = Some binary" and "\<not> list_ex ascii_whitespace s"
  shows "int (length binary) = int (length s * 3 div 4) - int (trailing_equals s)"
proof -
  have fl: "filter (\<lambda>c. \<not> ascii_whitespace c) s = s"
    using assms(2) by (simp add: list_ex_iff filter_id_conv)
  let ?d = "strip_padding s"
  have ok: "\<not> list_ex (\<lambda>c. sextet c = None) ?d"
    and bin: "binary = decode_sextets (map (\<lambda>c. the (sextet c)) ?d)"
    using assms(1) unfolding atob_def Let_def fl by (auto split: if_splits)
  have "\<forall>c \<in> set ?d. sextet c \<noteq> None"
    using ok by (simp add: list_ex_iff)
  then have "length s * 3 div 4 = length ?d * 3 div 4 + trailing_equals s"
    by (rule padded_length)
  then show ?thesis
    by (simp add: bin length_decode_sextets)
qed

section \<open>Migration from the v1 schema\<close>

lemma v1_to_v2_fields [simp]:
  "path (v1_to_v2 r) = v1_path r"
  "chunk_index (v1_to_v2 r) = 0"
  "data (v1_to_v2 r) = v1_data r"
  "is_dir (v1_to_v2 r) = v1_is_dir r"
  "size_col (v1_to_v2 r) = 0"
  "mtime (v1_to_v2 r) = v1_mtime r"
  by (simp_all add: v1_to_v2_def)

lemma copy_rows_append:
  assumes "distinct (map v1_path old)"
    and "\<forall>x \<in> set t. path x \<notin> v1_path ` set old"
  shows "copy_rows t old = Inr (t @ map v1_to_v2 old)"
  using assms
proof (induction old arbitrary: t)
  case Nil
  then show ?case by simp
next
  case (Cons r rs)
  have free: "\<not> list_ex (same_key (v1_to_v2 r)) t"
    using Cons.prems(2) by (auto simp: list_ex_iff same_key_def)
  have "copy_rows (t @ [v1_to_v2 r]) rs = Inr ((t @ [v1_to_v2 r]) @ map v1_to_v2 rs)"
    using Cons.prems by (intro Cons.IH) auto
  with free show ?case
    by (simp add: sql_insert_def)
qed

lemma migrateV1toV2_result:
  assumes "distinct (map v1_path old)"
  shows "migrateV1toV2 old now =
           Inr (map v1_to_v2 old @ (if [] \<in> v1_path ` set old then [] else [dir_row [] [] now]))"
proof -
  have "copy_rows [] old = Inr (map v1_to_v2 old)"
    using copy_rows_append [OF assms, of "[]"] by simp
  moreover have "list_ex (same_key (dir_row [] [] now)) (map v1_to_v2 old)
                   \<longleftrightarrow> [] \<in> v1_path ` set old"
    by (auto simp: list_ex_iff same_key_def dir_row_def image_iff)
  ultimately show ?thesis
    by (simp add: migrateV1toV2_def insert_or_ignore_def)
qed

lemma filter_migrated:
  assumes "distinct (map v1_path old)" and "r \<in> set old"
  shows "filter (\<lambda>x. path x = v1_path r) (map v1_to_v2 old) = [v1_to_v2 r]"
  using assms
proof (induction old)
  case Nil
  then show ?case by simp
next
  case (Cons a old)
  show ?case
  proof (cases "a = r")
    case True
    have "filter (\<lambda>x. path x = v1_path r) (map v1_to_v2 old) = []"
      using Cons.prems(1) True by (auto simp: filter_empty_conv image_iff)
    with True show ?thesis
      by simp
  next
    case False
    with Cons.prems have "r \<in> set old" and "v1_path a \<noteq> v1_path r"
      by (auto simp: image_iff)
    with Cons show ?thesis
      by simp
  qed
qed

lemma select_migrated:
  fixes now :: int
  assumes "distinct (map v1_path old)" and "r \<in> set old"
  defines "t \<equiv> map v1_to_v2 old @ (if [] \<in> v1_path ` set old then [] else [dir_row [] [] now])"
  shows "select_rows t (v1_path r) = [v1_to_v2 r]"
    and "select_chunk0 t (v1_path r) = Some (v1_to_v2 r)"
proof -
  have extra: "filter (\<lambda>x. path x = v1_path r)
                 (if [] \<in> v1_path ` set old then [] else [dir_row [] [] now]) = []"
    using assms(2) by (auto simp: dir_row_def image_iff)
  have fl: "filter (\<lambda>x. path x = v1_path r) t = [v1_to_v2 r]"
    unfolding t_def by (simp only: filter_append extra filter_migrated [OF assms(1,2)]) simp
  then show "select_rows t (v1_path r) = [v1_to_v2 r]"
    by (simp add: select_rows_def)
  have "find (\<lambda>x. chunk_index x = 0) (filter (\<lambda>x. path x = v1_path r) t) = Some (v1_to_v2 r)"
    unfolding fl by simp
  moreover have "find (\<lambda>x. chunk_index x = 0) (filter (\<lambda>x. path x = v1_path r) t)
                   = find (\<lambda>x. path x = v1_path r \<and> chunk_index x = 0) t"
    by (induction t) simp_all
  ultimately show "select_chunk0 t (v1_path r) = Some (v1_to_v2 r)"
    by (simp add: select_chunk0_def)
qed

text \<open>
  C3.  Let a v1 table hold at most one row per path, and let one of its rows
  be a file whose \<open>data\<close> is base64 text (a text without whitespace that
  \<^verbatim>\<open>atob\<close> decodes).  Then \<^verbatim>\<open>init\<close> migrates the table, and on the result
  \<^verbatim>\<open>readFile\<close> of that path returns exactly the decoded bytes and \<^verbatim>\<open>stat\<close>
  reports their number as the size.
\<close>

theorem migrated_row_reads_back:
  assumes "distinct (map v1_path old)" and "r \<in> set old"
    and "v1_is_dir r = 0" and "v1_data r = Text s"
    and "atob s = Some binary" and "\<not> list_ex ascii_whitespace s"
    and "normalizePath p = v1_path r"
  shows "\<exists>t. init (V1 old) now = Inr t
           \<and> readFile t p = Inr (map word_of_nat binary)
           \<and> stat t p = Inr \<lparr>stat_type = File, stat_mode = 33188,
                               stat_size = int (length binary), stat_mtimeMs = v1_mtime r,
                               stat_isSymbolicLink = False\<rparr>"
proof -
  define t where
    "t = map v1_to_v2 old @ (if [] \<in> v1_path ` set old then [] else [dir_row [] [] now])"
  have init: "init (V1 old) now = Inr t"
    by (simp add: init_def t_def migrateV1toV2_result [OF assms(1)])
  have rows: "select_rows t (v1_path r) = [v1_to_v2 r]"
    and meta: "select_chunk0 t (v1_path r) = Some (v1_to_v2 r)"
    unfolding t_def by (rule select_migrated [OF assms(1,2)])+
  have dec: "rowDataToBytes (Text s) = Inr (map word_of_nat binary)"
    using assms(5) by (cases s) (simp_all add: rowDataToBytes_def base64ToUint8Array_def atob_def
        strip_padding_def)
  have "readFile t p = Inr (map word_of_nat binary)"
    unfolding readFile_def Let_def assms(7) meta rows
    by (simp add: assms(3,4) dec concatBuffers_def)
  moreover have "stat t p = Inr \<lparr>stat_type = File, stat_mode = 33188,
      stat_size = int (length binary), stat_mtimeMs = v1_mtime r, stat_isSymbolicLink = False\<rparr>"
    unfolding stat_def Let_def assms(7) meta
    by (simp add: assms(3,4) atob_length [OF assms(5,6)])
  ultimately show ?thesis
    using init by blast
qed

text \<open>
  A v1 table with the row \<^verbatim>\<open>readme\<close> holding \<^verbatim>\<open>aGVsbG8=\<close>: after \<^verbatim>\<open>init\<close> the
  file reads back as the five bytes of \<^verbatim>\<open>hello\<close>, and its size is 5.
\<close>

theorem migrated_row_reads_back_witness:
  "distinct (map v1_path [legacy_readme])
   \<and> legacy_readme \<in> set [legacy_readme]
   \<and> v1_is_dir legacy_readme = 0
   \<and> v1_data legacy_readme = Text ''aGVsbG8=''
   \<and> atob ''aGVsbG8='' = Some [104, 101, 108, 108, 111]
   \<and> \<not> list_ex ascii_whitespace ''aGVsbG8=''
   \<and> normalizePath ''readme'' = v1_path legacy_readme
   \<and> (\<exists>t. init (V1 [legacy_readme]) 9 = Inr t
          \<and> readFile t ''readme'' = Inr [104, 101, 108, 108, 111]
          \<and> stat t ''readme'' = Inr \<lparr>stat_type = File, stat_mode = 33188, stat_size = 5,
                                       stat_mtimeMs = 7, stat_isSymbolicLink = False\<rparr>)"
proof -
  have h: "distinct (map v1_path [legacy_readme])" "legacy_readme \<in> set [legacy_readme]"
    "v1_is_dir legacy_readme = 0" "v1_data legacy_readme = Text ''aGVsbG8=''"
    "atob ''aGVsbG8='' = Some [104, 101, 108, 108, 111]"
    "\<not> list_ex ascii_whitespace ''aGVsbG8=''"
    "normalizePath ''readme'' = v1_path legacy_readme"
    by (simp_all add: legacy_readme_def atob_def strip_padding_def ascii_whitespace_def
        sextet_def path_eval)
  have five: "int (length [104, 101, 108, 108, 111 :: nat]) = 5"
    by simp
  have bytes: "map word_of_nat [104, 101, 108, 108, 111 :: nat] = [104, 101, 108, 108, 111 :: byte]"
    by simp
  have mt: "v1_mtime legacy_readme = 7"
    by (simp add: legacy_readme_def)
  show ?thesis
    using migrated_row_reads_back [OF h, of 9] h unfolding five bytes mt by blast
qed

section \<open>Renaming onto an existing file\<close>

lemma big_file_facts:
  "length big_file = Suc CHUNK_SIZE"
  "chunkCount (Suc CHUNK_SIZE) = 2"
  "slice_of big_file (Suc 0) = [1]"
  by (simp_all add: big_file_def chunkCount_def slice_of_take CHUNK_SIZE_def)

lemma upt_0_2: "[0 ..< 2] = [0, 1]"
  by (simp add: numeral_2_eq_2)

lemma two_files_built:
  "writeFile (createSchema 0) ''b'' big_file 1 2 = Inr (take 3 two_files)"
  "writeFile (take 3 two_files) ''a'' [7] 3 4 = Inr two_files"
proof -
  show "writeFile (createSchema 0) ''b'' big_file 1 2 = Inr (take 3 two_files)"
    unfolding writeFile_result
    by (simp add: two_files_def stored_rows_def big_file_facts upt_0_2 path_eval sql_eval
        vocab_eval)
  have "chunkCount (length [7 :: byte]) = 1"
    by (simp add: chunkCount_def CHUNK_SIZE_def)
  then show "writeFile (take 3 two_files) ''a'' [7] 3 4 = Inr two_files"
    unfolding writeFile_result
    by (simp add: two_files_def stored_rows_def path_eval select_chunk0_def delete_path_def
        dir_row_def vocab_eval)
qed

lemma rename_two_files: "rename two_files ''a'' ''b'' = Inr after_rename"
proof -
  have "select_rows two_files ''a'' = [chunk_row ''a'' '''' [7] 4 0]"
    by (simp add: two_files_def select_rows_def dir_row_def)
  moreover have "slice_of [7] 0 = [7]"
    by (simp add: slice_of_take CHUNK_SIZE_def)
  ultimately show ?thesis
    by (simp add: rename_def Let_def path_eval two_files_def after_rename_def
        insert_or_replace_def same_key_def delete_path_def dir_row_def)
qed

lemma read_after_rename:
  "readFile two_files ''a'' = Inr [7]"
  "readFile after_rename ''b'' = Inr [7, 1]"
  "readFile after_rename ''a'' = Inl (Errno ENOENT (- 2) ''a'')"
  "stat after_rename ''b'' = Inr \<lparr>stat_type = File, stat_mode = 33188, stat_size = 1,
                                   stat_mtimeMs = 4, stat_isSymbolicLink = False\<rparr>"
proof -
  have s0: "slice_of [7] 0 = [7]"
    by (simp add: slice_of_take CHUNK_SIZE_def)
  show "readFile two_files ''a'' = Inr [7]"
    by (simp add: readFile_def path_eval two_files_def select_chunk0_def select_rows_def
        dir_row_def rowDataToBytes_def concatBuffers_concat s0)
  show "readFile after_rename ''b'' = Inr [7, 1]"
    by (simp add: readFile_def path_eval after_rename_def select_chunk0_def select_rows_def
        dir_row_def rowDataToBytes_def concatBuffers_concat big_file_facts)
  show "readFile after_rename ''a'' = Inl (Errno ENOENT (- 2) ''a'')"
    by (simp add: readFile_def path_eval after_rename_def select_chunk0_def dir_row_def)
  show "stat after_rename ''b'' = Inr \<lparr>stat_type = File, stat_mode = 33188, stat_size = 1,
                                   stat_mtimeMs = 4, stat_isSymbolicLink = False\<rparr>"
    by (simp add: stat_def path_eval after_rename_def select_chunk0_def dir_row_def)
qed

text \<open>
  C4, the code at a failing input.  On a fresh table, write 1,843,201 bytes
  to \<^verbatim>\<open>b\<close> (two chunks) and the single byte 7 to \<^verbatim>\<open>a\<close>.  Then \<^verbatim>\<open>rename a b\<close>
  replaces chunk 0 of \<^verbatim>\<open>b\<close> and leaves its chunk 1 in place: \<^verbatim>\<open>readFile b\<close>
  returns the byte 7 followed by the last byte of the old file, not the bytes
  that were stored at \<^verbatim>\<open>a\<close>, while \<^verbatim>\<open>stat b\<close> reports size 1.
\<close>

theorem rename_leaves_stale_chunks:
  "writeFile (createSchema 0) ''b'' big_file 1 2 = Inr (take 3 two_files)
   \<and> writeFile (take 3 two_files) ''a'' [7] 3 4 = Inr two_files
   \<and> readFile two_files ''a'' = Inr [7]
   \<and> rename two_files ''a'' ''b'' = Inr after_rename
   \<and> readFile after_rename ''b'' = Inr [7, 1]
   \<and> readFile after_rename ''b'' \<noteq> readFile two_files ''a''
   \<and> stat after_rename ''b'' = Inr \<lparr>stat_type = File, stat_mode = 33188, stat_size = 1,
                                     stat_mtimeMs = 4, stat_isSymbolicLink = False\<rparr>
   \<and> readFile after_rename ''a'' = Inl (Errno ENOENT (- 2) ''a'')"
  by (simp add: two_files_built rename_two_files read_after_rename)

section \<open>What \<^verbatim>\<open>rename\<close> does when the destination holds no other chunk\<close>

lemma moved_row_fields [simp]:
  "path (moved_row n par r) = n"
  "chunk_index (moved_row n par r) = chunk_index r"
  "data (moved_row n par r) = data r"
  "is_dir (moved_row n par r) = is_dir r"
  by (simp_all add: moved_row_def)

lemma move_rows_result:
  assumes "distinct (map chunk_index rows)"
  shows "move_rows t n par rows =
           filter (\<lambda>x. \<not> (path x = n \<and> chunk_index x \<in> chunk_index ` set rows)) t
             @ map (moved_row n par) rows"
  using assms
proof (induction rows arbitrary: t)
  case Nil
  then show ?case by simp
next
  case (Cons r rows)
  let ?m = "moved_row n par r"
  have step: "move_rows t n par (r # rows) = move_rows (insert_or_replace t ?m) n par rows"
    by (simp add: moved_row_def Let_def)
  have keep: "\<not> (path ?m = n \<and> chunk_index ?m \<in> chunk_index ` set rows)"
    using Cons.prems by (auto simp: image_iff)
  have "filter (\<lambda>x. \<not> (path x = n \<and> chunk_index x \<in> chunk_index ` set rows))
          (insert_or_replace t ?m)
        = filter (\<lambda>x. \<not> (path x = n \<and> chunk_index x \<in> chunk_index ` set (r # rows))) t @ [?m]"
    using keep by (auto simp: insert_or_replace_def same_key_def intro: filter_cong)
  moreover have "move_rows (insert_or_replace t ?m) n par rows =
      filter (\<lambda>x. \<not> (path x = n \<and> chunk_index x \<in> chunk_index ` set rows))
        (insert_or_replace t ?m) @ map (moved_row n par) rows"
    using Cons.prems by (intro Cons.IH) simp
  ultimately show ?case
    unfolding step by simp
qed

lemma select_rows_facts:
  "set (select_rows t p) = {r \<in> set t. path r = p}"
  "sorted (map chunk_index (select_rows t p))"
  by (simp_all add: select_rows_def sorted_sort_key)

lemma select_rows_distinct:
  assumes "primary_key_ok t"
  shows "distinct (map chunk_index (select_rows t p))"
proof -
  have d: "distinct t" and inj: "inj_on (\<lambda>r. (path r, chunk_index r)) (set t)"
    using assms by (simp_all add: primary_key_ok_def distinct_map)
  have "inj_on chunk_index {r \<in> set t. path r = p}"
    using inj by (auto simp: inj_on_def)
  then show ?thesis
    using d by (simp add: distinct_map select_rows_def)
qed

lemma decode_rows_cong:
  "map data rows = map data rows' \<Longrightarrow> decode_rows rows = decode_rows rows'"
proof (induction rows arbitrary: rows')
  case Nil
  then show ?case by simp
next
  case (Cons r rows)
  then obtain r' rs' where "rows' = r' # rs'" and "data r = data r'" and "map data rows = map data rs'"
    by (cases rows') auto
  with Cons.IH [of rs'] show ?case
    by (simp cong: sum.case_cong)
qed

lemma find_chunk0_in_rows:
  assumes "primary_key_ok t" and "select_chunk0 t p = Some m"
  shows "find (\<lambda>x. chunk_index x = 0) (select_rows t p) = Some m"
proof -
  have m: "m \<in> set t" "path m = p" "chunk_index m = 0"
    using assms(2) by (auto simp: select_chunk0_def find_Some_iff)
  then have "\<exists>x \<in> set (select_rows t p). chunk_index x = 0"
    by (auto simp: select_rows_facts)
  then obtain x where x: "find (\<lambda>x. chunk_index x = 0) (select_rows t p) = Some x"
    by (cases "find (\<lambda>x. chunk_index x = 0) (select_rows t p)") (auto simp: find_None_iff)
  then have "x \<in> set (select_rows t p)" and "chunk_index x = 0"
    by (auto simp: find_Some_iff)
  then have "x \<in> set t" and "(path x, chunk_index x) = (path m, chunk_index m)"
    using m by (auto simp: select_rows_facts)
  moreover have "inj_on (\<lambda>r. (path r, chunk_index r)) (set t)"
    using assms(1) by (simp add: primary_key_ok_def distinct_map)
  ultimately have "x = m"
    using m(1) by (auto simp: inj_on_def)
  with x show ?thesis by simp
qed

lemma find_map_moved:
  "find (\<lambda>x. path x = n \<and> chunk_index x = 0) (map (moved_row n par) rows)
     = map_option (moved_row n par) (find (\<lambda>x. chunk_index x = 0) rows)"
  by (induction rows) simp_all

text \<open>
  Let the table respect its primary key, let \<open>a\<close> and \<open>b\<close> normalise to
  different paths, and let every row already stored at \<open>b\<close> have a chunk index
  that some row of \<open>a\<close> has too.  Then \<^verbatim>\<open>rename a b\<close> succeeds whenever
  \<^verbatim>\<open>readFile a\<close> did, \<^verbatim>\<open>readFile b\<close> afterwards returns the bytes that were at
  \<open>a\<close>, and \<^verbatim>\<open>readFile a\<close> raises \<^verbatim>\<open>ENOENT\<close>.
\<close>

lemma rename_reads_back:
  assumes pk: "primary_key_ok t"
    and ne: "normalizePath a \<noteq> normalizePath b"
    and rd: "readFile t a = Inr bytes"
    and fresh: "\<forall>x \<in> set t. path x = normalizePath b \<longrightarrow>
                  chunk_index x \<in> chunk_index ` set (select_rows t (normalizePath a))"
  shows "\<exists>t'. rename t a b = Inr t'
            \<and> readFile t' b = Inr bytes
            \<and> readFile t' a = Inl (Errno ENOENT (- 2) a)"
proof -
  define na where "na = normalizePath a"
  define nb where "nb = normalizePath b"
  define par where "par = (if 1 < length (split_slash nb)
                           then join_slash (butlast (split_slash nb)) else [])"
  define rows where "rows = select_rows t na"
  obtain m where meta: "select_chunk0 t na = Some m" and isfile: "is_dir m = 0"
    and dec: "decode_rows rows = Inr (case decode_rows rows of Inr c \<Rightarrow> c | Inl _ \<Rightarrow> [])"
    and bytes: "bytes = concatBuffers (case decode_rows rows of Inr c \<Rightarrow> c | Inl _ \<Rightarrow> [])"
    using rd unfolding readFile_def Let_def na_def [symmetric] rows_def [symmetric]
    by (auto split: option.splits if_splits sum.splits)
  have first: "find (\<lambda>x. chunk_index x = 0) rows = Some m"
    unfolding rows_def by (rule find_chunk0_in_rows [OF pk meta])
  then have nonempty: "rows \<noteq> []"
    by auto
  have rows_path: "\<forall>r \<in> set rows. path r = na"
    by (simp add: rows_def select_rows_facts)
  define kept where
    "kept = filter (\<lambda>x. \<not> (path x = nb \<and> chunk_index x \<in> chunk_index ` set rows)) t"
  define t' where "t' = delete_path (kept @ map (moved_row nb par) rows) na"
  have mv: "move_rows t nb par rows = kept @ map (moved_row nb par) rows"
    unfolding kept_def by (rule move_rows_result) (simp add: rows_def select_rows_distinct [OF pk])
  have ren: "rename t a b = Inr t'"
    using nonempty
    unfolding rename_def Let_def na_def [symmetric] nb_def [symmetric] par_def [symmetric]
      rows_def [symmetric] mv t'_def
    by simp
  have t'_eq: "t' = delete_path kept na @ map (moved_row nb par) rows"
    using ne by (simp add: t'_def delete_path_def na_def nb_def filter_id_conv)
  have no_b: "\<forall>r \<in> set (delete_path kept na). path r \<noteq> nb"
    using fresh by (auto simp: delete_path_def kept_def rows_def na_def nb_def)
  have sel: "select_rows t' nb = map (moved_row nb par) rows"
    unfolding t'_eq
    by (intro select_rows_fresh no_b)
      (simp_all add: comp_def rows_def select_rows_facts [unfolded comp_def])
  have chunk0: "select_chunk0 t' nb = Some (moved_row nb par m)"
    unfolding t'_eq select_chunk0_fresh [OF no_b]
    by (simp add: select_chunk0_def find_map_moved first)
  have "decode_rows (map (moved_row nb par) rows) = decode_rows rows"
    by (rule decode_rows_cong) (simp add: comp_def)
  then have "readFile t' b = Inr bytes"
    unfolding readFile_def Let_def nb_def [symmetric] chunk0 sel
    using isfile dec bytes by (simp split: sum.splits)
  moreover have "readFile t' a = Inl (Errno ENOENT (- 2) a)"
    by (simp add: readFile_def na_def [symmetric] t'_def)
  ultimately show ?thesis
    using ren by blast
qed

section \<open>What \<^verbatim>\<open>writeFile\<close> does to the ancestors\<close>

lemma join_slash_append:
  "xs \<noteq> [] \<Longrightarrow> ys \<noteq> [] \<Longrightarrow> join_slash (xs @ ys) = join_slash xs @ CHR ''/'' # join_slash ys"
proof (induction xs rule: join_slash.induct)
  case 1
  then show ?case by simp
next
  case (2 w)
  then show ?case by (cases ys) simp_all
next
  case (3 w v va)
  then show ?case by simp
qed

lemma length_join_take:
  assumes "0 < k" and "k < length ws"
  shows "length (join_slash (take k ws)) < length (join_slash ws)"
proof -
  have "join_slash (take k ws @ drop k ws) =
          join_slash (take k ws) @ CHR ''/'' # join_slash (drop k ws)"
    using assms by (intro join_slash_append) auto
  then have "length (join_slash ws) =
               length (join_slash (take k ws)) + Suc (length (join_slash (drop k ws)))"
    by (simp del: join_slash.simps)
  then show ?thesis
    by linarith
qed

lemma length_join_take_mono:
  assumes "0 < j" and "j < k" and "k \<le> length ws"
  shows "length (join_slash (take j ws)) < length (join_slash (take k ws))"
proof -
  have "length (join_slash (take j (take k ws))) < length (join_slash (take k ws))"
    using assms by (intro length_join_take) auto
  moreover have "take j (take k ws) = take j ws"
    using assms by (simp add: min_def)
  ultimately show ?thesis
    by simp
qed

lemma join_take_inj:
  assumes "0 < j" and "0 < k" and "j \<le> length ws" and "k \<le> length ws"
    and "join_slash (take j ws) = join_slash (take k ws)"
  shows "j = k"
proof (rule ccontr)
  assume "j \<noteq> k"
  then consider "j < k" | "k < j"
    by linarith
  then show False
  proof cases
    case 1
    then show False
      using length_join_take_mono [OF assms(1) 1 assms(4)] assms(5) by simp
  next
    case 2
    then show False
      using length_join_take_mono [OF assms(2) 2 assms(3)] assms(5) by simp
  qed
qed

lemma select_chunk0_insert_or_ignore:
  assumes "chunk_index r = 0"
  shows "select_chunk0 (insert_or_ignore t r) a =
           (case select_chunk0 t a of
              Some x \<Rightarrow> Some x
            | None \<Rightarrow> if path r = a then Some r else None)"
proof (cases "list_ex (same_key r) t")
  case True
  then obtain x where "x \<in> set t" and "path x = path r" and "chunk_index x = 0"
    using assms by (auto simp: list_ex_iff same_key_def)
  then have "path r = a \<Longrightarrow> select_chunk0 t a \<noteq> None"
    by (auto simp: select_chunk0_def find_None_iff)
  with True show ?thesis
    by (auto simp: insert_or_ignore_def split: option.splits)
next
  case False
  then show ?thesis
    using assms
    by (auto simp: insert_or_ignore_def select_chunk0_def find_app split: option.splits)
qed

lemma select_chunk0_ensure_parents:
  assumes "\<forall>j \<in> set js. Suc j \<le> length parts"
  shows "select_chunk0 (ensure_parents t parts now js) a =
           (case select_chunk0 t a of
              Some x \<Rightarrow> Some x
            | None \<Rightarrow>
                (case find (\<lambda>j. join_slash (take (Suc j) parts) = a) js of
                   None \<Rightarrow> None
                 | Some j \<Rightarrow>
                     Some (dir_row a (if j = 0 then [] else join_slash (take j parts)) now)))"
  using assms
proof (induction js arbitrary: t)
  case Nil
  then show ?case by (simp split: option.splits)
next
  case (Cons j js)
  let ?r = "dir_row (join_slash (take (Suc j) parts))
              (if j = 0 then [] else join_slash (take j parts)) now"
  have step: "select_chunk0 (insert_or_ignore t ?r) a =
           (case select_chunk0 t a of
              Some x \<Rightarrow> Some x
            | None \<Rightarrow> if path ?r = a then Some ?r else None)"
    by (rule select_chunk0_insert_or_ignore) (simp add: dir_row_def)
  have "select_chunk0 (ensure_parents (insert_or_ignore t ?r) parts now js) a =
           (case select_chunk0 (insert_or_ignore t ?r) a of
              Some x \<Rightarrow> Some x
            | None \<Rightarrow>
                (case find (\<lambda>j. join_slash (take (Suc j) parts) = a) js of
                   None \<Rightarrow> None
                 | Some j \<Rightarrow>
                     Some (dir_row a (if j = 0 then [] else join_slash (take j parts)) now)))"
    using Cons.prems by (intro Cons.IH) simp
  then show ?case
    unfolding step by (auto simp: Let_def dir_row_def split: option.splits)
qed

lemma select_chunk0_delete_other:
  "a \<noteq> n \<Longrightarrow> select_chunk0 (delete_path t n) a = select_chunk0 t a"
  by (induction t) (auto simp: select_chunk0_def delete_path_def)

lemma select_chunk0_append_other:
  "\<forall>r \<in> set rows. path r \<noteq> a \<Longrightarrow> select_chunk0 (t @ rows) a = select_chunk0 t a"
proof -
  assume "\<forall>r \<in> set rows. path r \<noteq> a"
  then have "find (\<lambda>r. path r = a \<and> chunk_index r = 0) rows = None"
    by (auto simp: find_None_iff)
  then show ?thesis
    by (simp add: select_chunk0_def find_app split: option.splits)
qed

lemma ancestor_after_write:
  assumes w: "writeFile t p b now_dirs now = Inr t'"
    and i: "Suc i < length (split_slash (normalizePath p))"
  defines "a \<equiv> join_slash (take (Suc i) (split_slash (normalizePath p)))"
  shows "select_chunk0 t' a =
           (case select_chunk0 t a of
              Some x \<Rightarrow> Some x
            | None \<Rightarrow>
                Some (dir_row a
                        (if i = 0 then []
                         else join_slash (take i (split_slash (normalizePath p))))
                        now_dirs))"
proof -
  define n where "n = normalizePath p"
  define parts where "parts = split_slash n"
  have deep: "1 < length parts"
    using i by (simp add: parts_def n_def)
  have a: "a = join_slash (take (Suc i) parts)"
    by (simp add: a_def parts_def n_def)
  have t': "t' = delete_path (ensure_parents t parts now_dirs [0 ..< length parts - 1]) n
                   @ stored_rows n b now"
    using w deep unfolding writeFile_result n_def [symmetric] parts_def [symmetric] by simp
  have "length a < length (join_slash parts)"
    unfolding a using i by (intro length_join_take) (simp_all add: parts_def n_def)
  then have an: "a \<noteq> n"
    by (auto simp: parts_def)
  have fnd: "find (\<lambda>j. join_slash (take (Suc j) parts) = a) [0 ..< length parts - 1] = Some i"
  proof -
    have "i \<in> set [0 ..< length parts - 1]"
      using i by (simp add: parts_def n_def)
    then obtain j where j: "find (\<lambda>j. join_slash (take (Suc j) parts) = a)
                                [0 ..< length parts - 1] = Some j"
      using a by (cases "find (\<lambda>j. join_slash (take (Suc j) parts) = a) [0 ..< length parts - 1]")
        (auto simp: find_None_iff)
    then have "join_slash (take (Suc j) parts) = a" and "Suc j \<le> length parts"
      by (auto simp: find_Some_iff)
    then have "Suc j = Suc i"
      using i by (intro join_take_inj [of _ _ parts]) (simp_all add: a parts_def n_def)
    with j show ?thesis by simp
  qed
  have "select_chunk0 t' a = select_chunk0 (ensure_parents t parts now_dirs [0 ..< length parts - 1]) a"
    unfolding t' using an
    by (simp add: select_chunk0_append_other stored_rows_path select_chunk0_delete_other)
  also have "\<dots> = (case select_chunk0 t a of
              Some x \<Rightarrow> Some x
            | None \<Rightarrow> Some (dir_row a (if i = 0 then [] else join_slash (take i parts)) now_dirs))"
  proof -
    have "\<forall>j \<in> set [0 ..< length parts - 1]. Suc j \<le> length parts"
      by auto
    from select_chunk0_ensure_parents [OF this, of t now_dirs a, unfolded fnd] show ?thesis
      by (cases "select_chunk0 t a") simp_all
  qed
  finally show ?thesis
    unfolding parts_def n_def .
qed

text \<open>
  Whenever \<^verbatim>\<open>writeFile\<close> succeeds, a proper ancestor of the path that had no
  chunk-0 row, or was a directory, is a directory afterwards; an ancestor
  that had a chunk-0 row with another \<open>is_dir\<close> keeps that row.
\<close>

lemma ancestor_dir_after_write:
  assumes "writeFile t p b now_dirs now = Inr t'"
    and "Suc i < length (split_slash (normalizePath p))"
  shows "exists_as_dir t' (join_slash (take (Suc i) (split_slash (normalizePath p))))
           \<longleftrightarrow> absent t (join_slash (take (Suc i) (split_slash (normalizePath p))))
                \<or> exists_as_dir t (join_slash (take (Suc i) (split_slash (normalizePath p))))"
  unfolding exists_as_dir_def absent_def ancestor_after_write [OF assms]
  by (simp add: dir_row_def split: option.splits)

section \<open>Writing below a file\<close>

lemma file_with_child_built:
  "writeFile (createSchema 0) ''a'' [1] 1 2 = Inr (take 2 file_with_child)"
  "writeFile (take 2 file_with_child) ''a/b'' [2] 3 4 = Inr file_with_child"
  by (simp_all add: file_with_child_def writeFile_def chunk_row_def toBuffer_def
        CHUNK_SIZE_def path_eval sql_eval upt_rec [of 0])

text \<open>
  C6, the code at a failing input.  On a fresh table, write a file to \<^verbatim>\<open>a\<close>
  and then a file to \<^verbatim>\<open>a/b\<close>.  Both writes succeed; the insertion of the
  ancestor \<^verbatim>\<open>a\<close> is ignored because a chunk-0 row is already there, so after
  the second write the proper ancestor \<^verbatim>\<open>a\<close> of \<^verbatim>\<open>a/b\<close> has a chunk-0 row with
  \<open>is_dir = 0\<close>.
\<close>

theorem write_below_file_keeps_file:
  "writeFile (createSchema 0) ''a'' [1] 1 2 = Inr (take 2 file_with_child)
   \<and> writeFile (take 2 file_with_child) ''a/b'' [2] 3 4 = Inr file_with_child
   \<and> map_option is_dir (select_chunk0 file_with_child ''a'') = Some 0
   \<and> exists_as_file file_with_child ''a''
   \<and> \<not> exists_as_dir file_with_child ''a''
   \<and> map_option parent_path (select_chunk0 file_with_child ''a/b'') = Some ''a''"
  by (simp add: file_with_child_built)
    (simp add: file_with_child_def vocab_eval select_chunk0_def dir_row_def)

end
